theory Spec2Isabelle
  imports Complex_Main "HOL-Library.Sublist" "HOL-Library.Word"
begin

section \<open>JavaScript values the code inspects\<close>

text \<open>
  Values obtained from \<^verbatim>\<open>JSON.parse\<close>. An object is its list of members (keys
  distinct, as in a JavaScript object); a number is the value of the parsed double.
\<close>

datatype json =
    JNull
  | JBool bool
  | JNumber real
  | JString string
  | JArray "json list"
  | JObject "(string \<times> json) list"

text \<open>
  Truthiness as \<^verbatim>\<open>if (v)\<close>, \<^verbatim>\<open>a && b\<close> and \<^verbatim>\<open>a || b\<close> test it; \<open>None\<close> is
  \<^verbatim>\<open>undefined\<close>.
\<close>

fun truthy :: "json option \<Rightarrow> bool" where
  "truthy None = False"
| "truthy (Some JNull) = False"
| "truthy (Some (JBool b)) = b"
| "truthy (Some (JNumber x)) = (x \<noteq> 0)"
| "truthy (Some (JString s)) = (s \<noteq> [])"
| "truthy (Some (JArray xs)) = True"
| "truthy (Some (JObject kvs)) = True"

text \<open>
  A thrown value, as far as the code looks at it: \<^verbatim>\<open>err instanceof Error\<close>,
  \<^verbatim>\<open>err.message\<close>, and the text
  \<^verbatim>\<open>typeof err === 'object' ? JSON.stringify(err) : String(err)\<close>.
\<close>

datatype thrown = Thrown (instanceofError: bool) (message: string) (stringified: string)

text \<open>\<^verbatim>\<open>new Error(m)\<close>: an Error has no enumerable property, so it stringifies to \<^verbatim>\<open>{}\<close>.\<close>

definition new_Error :: "string \<Rightarrow> thrown" where
  "new_Error m = Thrown True m ''{}''"

text \<open>
  Property read \<^verbatim>\<open>v.key\<close> for a key that no prototype defines: a TypeError on
  \<^verbatim>\<open>null\<close>, the member of an object, \<^verbatim>\<open>undefined\<close> otherwise.
\<close>

fun get_property :: "json \<Rightarrow> string \<Rightarrow> thrown + json option" where
  "get_property JNull key =
     Inl (new_Error (''Cannot read properties of null (reading '' @ [CHR 0x27] @ key @ [CHR 0x27] @ '')''))"
| "get_property (JObject kvs) key = Inr (map_of kvs key)"
| "get_property v key = Inr None"

section \<open>Strings\<close>

text \<open>\<^verbatim>\<open>String.prototype.toLowerCase\<close> on the ASCII letters.\<close>

definition toLowerCase_char :: "char \<Rightarrow> char" where
  "toLowerCase_char c =
     (case map_of (zip ''ABCDEFGHIJKLMNOPQRSTUVWXYZ'' ''abcdefghijklmnopqrstuvwxyz'') c of
        None \<Rightarrow> c
      | Some d \<Rightarrow> d)"

definition toLowerCase :: "string \<Rightarrow> string" where
  "toLowerCase s = map toLowerCase_char s"

text \<open>\<^verbatim>\<open>s.includes(t)\<close> and \<^verbatim>\<open>s.startsWith(t)\<close>.\<close>

fun includes_str :: "string \<Rightarrow> string \<Rightarrow> bool" where
  "includes_str [] t = (t = [])"
| "includes_str (c # s) t = (prefix t (c # s) \<or> includes_str s t)"

definition startsWith :: "string \<Rightarrow> string \<Rightarrow> bool" where
  "startsWith s t = prefix t s"

text \<open>Decimal rendering of a natural number, as a template literal inserts it.\<close>

definition digit_char :: "nat \<Rightarrow> char" where
  "digit_char d = ''0123456789'' ! d"

function show_nat :: "nat \<Rightarrow> string" where
  "show_nat n = (if n < 10 then [digit_char n] else show_nat (n div 10) @ [digit_char (n mod 10)])"
  by pat_completeness auto
termination
  by (relation "measure (\<lambda>n. n)") auto

declare show_nat.simps [simp del]

text \<open>\<^verbatim>\<open>xs.join(sep)\<close>.\<close>

definition join :: "string \<Rightarrow> string list \<Rightarrow> string" where
  "join sep xs = (case xs of [] \<Rightarrow> [] | x # rest \<Rightarrow> foldl (\<lambda>acc y. acc @ sep @ y) x rest)"

text \<open>
  White space as \<^verbatim>\<open>\s\<close> and \<^verbatim>\<open>trim()\<close> see it, on ASCII: tab, line feed,
  vertical tab, form feed, carriage return, space.
\<close>

definition is_space :: "char \<Rightarrow> bool" where
  "is_space c = (c \<in> set [CHR 0x09, CHR 0x0A, CHR 0x0B, CHR 0x0C, CHR 0x0D, CHR 0x20])"

definition trim :: "string \<Rightarrow> string" where
  "trim s = rev (dropWhile is_space (rev (dropWhile is_space s)))"

section \<open>The retrying conversation client (services/geminiService.ts)\<close>

text \<open>
  A message for \<^verbatim>\<open>chat.sendMessage\<close>: its parts, and whether it carries the
  configuration asking for a JSON response (\<^verbatim>\<open>responseMimeType\<close>, \<^verbatim>\<open>responseSchema\<close>).
\<close>

record image =
  mimeType :: string
  data :: string

datatype part = TextPart string | InlineData string string

record message =
  parts :: "part list"
  json_config :: bool

text \<open>
  What a successful \<^verbatim>\<open>chat.sendMessage\<close> yields: \<^verbatim>\<open>response.text\<close>
  (\<open>None\<close> when the response has no text), and the chat's history afterwards
  (\<^verbatim>\<open>chat.getHistory()\<close>). A failed call throws and leaves the history as it was.
\<close>

record 'h response =
  text_of :: "string option"
  history_after :: 'h

definition MAX_RETRIES :: nat where
  "MAX_RETRIES = 7"

definition INITIAL_DELAY_MS :: nat where
  "INITIAL_DELAY_MS = 3000"

definition errorString :: "thrown \<Rightarrow> string" where
  "errorString err = toLowerCase (stringified err)"

definition isQuotaError :: "thrown \<Rightarrow> bool" where
  "isQuotaError err =
     (includes_str (errorString err) ''daily limit'' \<or> includes_str (errorString err) ''quota exceeded'')"

definition isRetriableError :: "thrown \<Rightarrow> bool" where
  "isRetriableError err =
     (includes_str (errorString err) ''429'' \<or>
      includes_str (errorString err) ''resource_exhausted'' \<or>
      includes_str (errorString err) ''500'' \<or>
      includes_str (errorString err) ''503'' \<or>
      includes_str (errorString err) ''unknown'' \<or>
      includes_str (errorString err) ''rpc failed'')"

text \<open>
  The outcome of one run of \<^verbatim>\<open>sendMessageWithRetry\<close>: what it returns or throws,
  how many times it called \<^verbatim>\<open>chat.sendMessage\<close>, and the delays it slept, in order.
\<close>

record 'r retry_outcome =
  outcome :: "thrown + 'r"
  attempts :: nat
  delays :: "nat list"

text \<open>
  The \<^verbatim>\<open>for (let attempt = 0; attempt < MAX_RETRIES; attempt++)\<close> loop.
  \<open>send k\<close> is what the \<open>k\<close>-th call of \<^verbatim>\<open>chat.sendMessage(message)\<close> of this run
  does; \<open>rnd k\<close> is \<^verbatim>\<open>Math.floor(Math.random() * 1000)\<close> as drawn after the \<open>k\<close>-th
  failure.
\<close>

function retry_loop ::
  "(nat \<Rightarrow> thrown + 'r) \<Rightarrow> (nat \<Rightarrow> nat) \<Rightarrow> nat \<Rightarrow> nat \<Rightarrow> nat list \<Rightarrow> 'r retry_outcome" where
  "retry_loop send rnd attempt delay slept =
     (if attempt < MAX_RETRIES then
        (case send attempt of
           Inr resp \<Rightarrow> \<lparr>outcome = Inr resp, attempts = attempt + 1, delays = slept\<rparr>
         | Inl err \<Rightarrow>
             if isQuotaError err then
               \<lparr>outcome = Inl err, attempts = attempt + 1, delays = slept\<rparr>
             else if isRetriableError err \<and> attempt < MAX_RETRIES - 1 then
               retry_loop send rnd (attempt + 1) (delay * 2 + rnd attempt) (slept @ [delay])
             else
               \<lparr>outcome = Inl err, attempts = attempt + 1, delays = slept\<rparr>)
      else
        \<lparr>outcome = Inl (new_Error ''Exceeded maximum retries for sending message.''),
         attempts = attempt, delays = slept\<rparr>)"
  by pat_completeness auto
termination
  by (relation "measure (\<lambda>(send, rnd, attempt, delay, slept). MAX_RETRIES - attempt)")
     (auto simp: MAX_RETRIES_def)

declare retry_loop.simps [simp del]

definition sendMessageWithRetry :: "(nat \<Rightarrow> thrown + 'r) \<Rightarrow> (nat \<Rightarrow> nat) \<Rightarrow> 'r retry_outcome" where
  "sendMessageWithRetry send rnd = retry_loop send rnd 0 INITIAL_DELAY_MS []"

text \<open>\<^verbatim>\<open>startEpubConversionChat(history?)\<close>: the chat starts from \<^verbatim>\<open>history || []\<close>.\<close>

definition startEpubConversionChat :: "'c list option \<Rightarrow> 'c list" where
  "startEpubConversionChat history = (case history of None \<Rightarrow> [] | Some h \<Rightarrow> h)"

text \<open>
  \<^verbatim>\<open>sendPdfChunkToChat\<close>: one text part and one inline-data part per image, sent
  through the retry loop. \<open>send m k\<close> is the \<open>k\<close>-th call of \<^verbatim>\<open>chat.sendMessage(m)\<close>.
\<close>

definition chunk_message :: "string \<Rightarrow> image list \<Rightarrow> nat \<Rightarrow> nat \<Rightarrow> message" where
  "chunk_message txt images s e =
     \<lparr>parts =
        TextPart (''Here is the content for pages '' @ show_nat s @ ''-'' @ show_nat e @
          ''. Please process it and wait for the next chunk. PDF Content for this chunk is below:\<newline>\<newline>'' @ txt)
        # map (\<lambda>im. InlineData (mimeType im) (data im)) images,
      json_config = False\<rparr>"

definition sendPdfChunkToChat ::
  "(message \<Rightarrow> nat \<Rightarrow> thrown + 'r) \<Rightarrow> (nat \<Rightarrow> nat) \<Rightarrow> string \<Rightarrow> image list \<Rightarrow> nat \<Rightarrow> nat
    \<Rightarrow> 'r retry_outcome" where
  "sendPdfChunkToChat send rnd txt images s e =
     sendMessageWithRetry (send (chunk_message txt images s e)) rnd"

text \<open>
  \<^verbatim>\<open>finishEpubConversionChat\<close>. The module constant \<^verbatim>\<open>FINAL_PROMPT_INSTRUCTIONS\<close>
  is the parameter \<open>instructions\<close>; \<open>parse\<close> is \<^verbatim>\<open>JSON.parse\<close>, giving the message of
  its SyntaxError on the left.
\<close>

definition final_message :: "string \<Rightarrow> message" where
  "final_message instructions =
     \<lparr>parts = [TextPart (''I have now sent you all the chunks of the PDF. Please generate the complete HTML document based on all the content provided so far. Follow these instructions carefully:\<newline>\<newline>'' @ instructions)],
      json_config = True\<rparr>"

text \<open>The two replacements applied to \<^verbatim>\<open>jsonStr\<close>: a leading Markdown fence (three backquotes and
  \<^verbatim>\<open>json\<close>) with the white space after it, and a closing fence at the very end with
  the white space before it, are removed.\<close>

definition fence :: string where
  "fence = [CHR 0x60, CHR 0x60, CHR 0x60]"

definition strip_fence_open :: "string \<Rightarrow> string" where
  "strip_fence_open s =
     (if prefix (fence @ ''json'') s then dropWhile is_space (drop 7 s) else s)"

definition strip_fence_close :: "string \<Rightarrow> string" where
  "strip_fence_close s =
     (if prefix fence (rev s) then rev (dropWhile is_space (drop 3 (rev s))) else s)"

text \<open>
  The \<^verbatim>\<open>catch\<close> of \<^verbatim>\<open>finishEpubConversionChat\<close>: every error is rethrown as
  an \<^verbatim>\<open>Error\<close> whose message is \<^verbatim>\<open>Failed to convert PDF to HTML. \<close> followed by the
  caught error's message.
\<close>

definition rethrow_failed :: "thrown \<Rightarrow> thrown" where
  "rethrow_failed err =
     new_Error (''Failed to convert PDF to HTML. '' @
       (if instanceofError err then message err else ''An unknown error occurred.''))"

definition cleaned_text :: "string \<Rightarrow> string" where
  "cleaned_text t = strip_fence_close (strip_fence_open (trim t))"

text \<open>
  The body of the \<^verbatim>\<open>try\<close> after the response has arrived: clean
  \<^verbatim>\<open>response.text\<close>, parse it, and return \<^verbatim>\<open>result.htmlContent\<close> when
  \<^verbatim>\<open>result && result.htmlContent\<close> is truthy.
\<close>

definition read_htmlContent :: "(string \<Rightarrow> string + json) \<Rightarrow> string option \<Rightarrow> thrown + json" where
  "read_htmlContent parse txt =
     (case txt of
        None \<Rightarrow> Inl (new_Error ''Cannot read properties of undefined (reading 'trim')'')
      | Some t \<Rightarrow>
          (case parse (cleaned_text t) of
                Inl syntax_error \<Rightarrow> Inl (new_Error syntax_error)
              | Inr res \<Rightarrow>
                  (if truthy (Some res) then
                     (case get_property res ''htmlContent'' of
                        Inl err \<Rightarrow> Inl err
                      | Inr None \<Rightarrow> Inl (new_Error ''API response did not contain 'htmlContent'.'')
                      | Inr (Some html) \<Rightarrow>
                          (if truthy (Some html) then Inr html
                           else Inl (new_Error ''API response did not contain 'htmlContent'.'')))
                   else Inl (new_Error ''API response did not contain 'htmlContent'.''))))"

definition finishEpubConversionChat ::
  "(message \<Rightarrow> nat \<Rightarrow> thrown + 'h response) \<Rightarrow> (nat \<Rightarrow> nat) \<Rightarrow> (string \<Rightarrow> string + json) \<Rightarrow> string
    \<Rightarrow> json retry_outcome" where
  "finishEpubConversionChat send rnd parse instructions =
     (let r = sendMessageWithRetry (send (final_message instructions)) rnd
      in case outcome r of
           Inl err \<Rightarrow> \<lparr>outcome = Inl (rethrow_failed err), attempts = attempts r, delays = delays r\<rparr>
         | Inr resp \<Rightarrow>
             (case read_htmlContent parse (text_of resp) of
                Inl err \<Rightarrow>
                  \<lparr>outcome = Inl (rethrow_failed err), attempts = attempts r, delays = delays r\<rparr>
              | Inr html \<Rightarrow> \<lparr>outcome = Inr html, attempts = attempts r, delays = delays r\<rparr>))"

section \<open>Chunk slicing (App.tsx, handleConvert)\<close>

text \<open>
  \<^verbatim>\<open>const CHUNK_SIZE = 5;\<close> and, inside \<^verbatim>\<open>handleConvert\<close>,
  \<^verbatim>\<open>const numChunks = Math.ceil(numPages / CHUNK_SIZE);\<close>
  \<^verbatim>\<open>const startPage = i * CHUNK_SIZE + 1;\<close>
  \<^verbatim>\<open>const endPage = Math.min((i + 1) * CHUNK_SIZE, numPages);\<close>
  Page counts and chunk indices are natural numbers; the quotient is the real quotient
  that JavaScript's number division computes (exact for the integers involved).
\<close>

definition CHUNK_SIZE :: nat where
  "CHUNK_SIZE = 5"

definition numChunks :: "nat \<Rightarrow> nat" where
  "numChunks P = nat \<lceil>real P / real CHUNK_SIZE\<rceil>"

definition startPage :: "nat \<Rightarrow> nat" where
  "startPage i = i * CHUNK_SIZE + 1"

definition endPage :: "nat \<Rightarrow> nat \<Rightarrow> nat" where
  "endPage P i = min ((i + 1) * CHUNK_SIZE) P"

text \<open>
  The page numbers the inner loop
  \<^verbatim>\<open>for (let pageNum = startPage; pageNum <= endPage; pageNum++)\<close> visits for chunk \<open>i\<close>.
\<close>

definition chunk_pages :: "nat \<Rightarrow> nat \<Rightarrow> nat list" where
  "chunk_pages P i = [startPage i ..< Suc (endPage P i)]"

section \<open>The archive packager (services/epubService.ts)\<close>

text \<open>The four template helpers.\<close>

definition createContainerXml :: string where
  \<open>createContainerXml =
     ''<?xml version="1.0" encoding="UTF-8"?>\<newline>'' @
     ''<container version="1.0" xmlns="urn:oasis:names:tc:opendocument:xmlns:container">\<newline>'' @
     ''  <rootfiles>\<newline>'' @
     ''    <rootfile full-path="OEBPS/content.opf" media-type="application/oebps-package+xml"/>\<newline>'' @
     ''  </rootfiles>\<newline>'' @
     ''</container>''\<close>

definition createContentOpf :: "string \<Rightarrow> string \<Rightarrow> string" where
  \<open>createContentOpf title fileManifest =
     ''<?xml version="1.0" encoding="UTF-8"?>\<newline>'' @
     ''<package xmlns="http://www.idpf.org/2007/opf" unique-identifier="pub-id" version="2.0">\<newline>'' @
     ''  <metadata xmlns:dc="http://purl.org/dc/elements/1.1/" xmlns:opf="http://www.idpf.org/2007/opf">\<newline>'' @
     ''    <dc:title>'' @
     title @
     ''</dc:title>\<newline>'' @
     ''    <dc:language>en</dc:language>\<newline>'' @
     ''  </metadata>\<newline>'' @
     ''  <manifest>\<newline>'' @
     ''    <item id="content" href="content.xhtml" media-type="application/xhtml+xml"/>\<newline>'' @
     ''    <item id="ncx" href="toc.ncx" media-type="application/x-dtbncx+xml"/>\<newline>'' @
     ''    <item id="css" href="style.css" media-type="text/css"/>\<newline>'' @
     ''    '' @
     fileManifest @
     ''\<newline>'' @
     ''  </manifest>\<newline>'' @
     ''  <spine toc="ncx">\<newline>'' @
     ''    <itemref idref="content"/>\<newline>'' @
     ''  </spine>\<newline>'' @
     ''</package>''\<close>

definition createTocNcx :: "string \<Rightarrow> string \<Rightarrow> string" where
  \<open>createTocNcx title navPoints =
     ''<?xml version="1.0" encoding="UTF-8"?>\<newline>'' @
     ''<!DOCTYPE ncx PUBLIC "-//NISO//DTD ncx 2005-1//EN" "http://www.daisy.org/z3986/2005/ncx-2005-1.dtd">\<newline>'' @
     ''<ncx xmlns="http://www.daisy.org/z3986/2005/ncx/" version="2005-1">\<newline>'' @
     ''  <head>\<newline>'' @
     ''    <meta name="dtb:uid" content=""/>\<newline>'' @
     ''    <meta name="dtb:depth" content="1"/>\<newline>'' @
     ''    <meta name="dtb:totalPageCount" content="0"/>\<newline>'' @
     ''    <meta name="dtb:maxPageNumber" content="0"/>\<newline>'' @
     ''  </head>\<newline>'' @
     ''  <docTitle>\<newline>'' @
     ''    <text>'' @
     title @
     ''</text>\<newline>'' @
     ''  </docTitle>\<newline>'' @
     ''  <navMap>\<newline>'' @
     ''    '' @
     navPoints @
     ''\<newline>'' @
     ''  </navMap>\<newline>'' @
     ''</ncx>''\<close>

definition createCss :: string where
  \<open>createCss =
     ''body {\<newline>'' @
     ''  font-family: serif;\<newline>'' @
     ''  line-height: 1.6;\<newline>'' @
     ''  padding: 1em;\<newline>'' @
     ''}\<newline>'' @
     ''h1, h2, h3, h4, h5, h6 {\<newline>'' @
     ''  margin-top: 1.5em;\<newline>'' @
     ''  margin-bottom: 0.5em;\<newline>'' @
     ''  line-height: 1.2;\<newline>'' @
     ''}\<newline>'' @
     ''img {\<newline>'' @
     ''  max-width: 100%;\<newline>'' @
     ''  display: block;\<newline>'' @
     ''  margin: 1em auto;\<newline>'' @
     ''}\<newline>'' @
     ''nav ol {\<newline>'' @
     ''  list-style-type: none;\<newline>'' @
     ''  padding-left: 0;\<newline>'' @
     ''}\<newline>'' @
     ''nav li {\<newline>'' @
     ''  margin-bottom: 0.5em;\<newline>'' @
     ''}''\<close>

text \<open>
  An entry of the JSZip object, in insertion order: its full name, its content (text,
  Base64 data given with \<^verbatim>\<open>{ base64: true }\<close>, or a folder made by \<^verbatim>\<open>folder\<close>), and
  the compression named for it (\<^verbatim>\<open>STORE\<close> for the marker file, none for the others).
\<close>

datatype content = Text string | Base64 string | Folder

record entry =
  entry_name :: string
  entry_content :: content
  entry_compression :: "string option"

text \<open>
  The parsed document (\<^verbatim>\<open>DOMParser.parseFromString(htmlContent, 'text/html')\<close>), as far
  as \<^verbatim>\<open>generateEpub\<close> reads and changes it: the text of the first \<^verbatim>\<open>title\<close>
  element, whether there is a \<^verbatim>\<open>head\<close> and the elements appended to it (each as its
  attribute list), the \<^verbatim>\<open>src\<close> attribute of every \<^verbatim>\<open>img\<close> in document order
  (\<open>None\<close> when absent), and the text and \<^verbatim>\<open>href\<close> of every element that
  \<^verbatim>\<open>querySelectorAll('nav ol li a')\<close> selects.
\<close>

record html_doc =
  title_text :: "string option"
  head_present :: bool
  head_appended :: "(string \<times> string) list list"
  img_srcs :: "string option list"
  toc_links :: "(string \<times> string option) list"

text \<open>\<^verbatim>\<open>s.split(c)\<close> for a one-character separator: never empty.\<close>

fun split_on :: "char \<Rightarrow> string \<Rightarrow> string list" where
  "split_on sep [] = [[]]"
| "split_on sep (c # cs) =
     (if c = sep then [] # split_on sep cs
      else (case split_on sep cs of
              [] \<Rightarrow> [[c]]
            | w # ws \<Rightarrow> (c # w) # ws))"

text \<open>Array indexing: \<open>None\<close> is \<^verbatim>\<open>undefined\<close>.\<close>

fun nth_opt :: "'a list \<Rightarrow> nat \<Rightarrow> 'a option" where
  "nth_opt [] n = None"
| "nth_opt (x # xs) 0 = Some x"
| "nth_opt (x # xs) (Suc n) = nth_opt xs n"

text \<open>
  \<^verbatim>\<open>header.match(/:(.*?);/)\<close>, giving the captured group: from the first colon that
  is followed by a semicolon with no line break in between, the text up to that
  semicolon.
\<close>

definition line_break :: "char \<Rightarrow> bool" where
  "line_break c = (c = CHR 0x0A \<or> c = CHR 0x0D)"

fun mime_match :: "string \<Rightarrow> string option" where
  "mime_match [] = None"
| "mime_match (c # cs) =
     (if c = CHR '':'' \<and> length (takeWhile (\<lambda>x. x \<noteq> CHR '';'') cs) < length cs
         \<and> \<not> list_ex line_break (takeWhile (\<lambda>x. x \<noteq> CHR '';'') cs)
      then Some (takeWhile (\<lambda>x. x \<noteq> CHR '';'') cs)
      else mime_match cs)"

text \<open>
  The destructuring \<^verbatim>\<open>const [header, base64Data] = src.split(',')\<close>.
\<close>

definition header_of :: "string \<Rightarrow> string" where
  "header_of src = (case split_on CHR '','' src of [] \<Rightarrow> [] | h # rest \<Rightarrow> h)"

definition base64Data_of :: "string \<Rightarrow> string option" where
  "base64Data_of src = nth_opt (split_on CHR '','' src) 1"

text \<open>\<^verbatim>\<open>mimeType.split('/')[1] || 'jpeg'\<close>.\<close>

definition extension_of :: "string \<Rightarrow> string" where
  "extension_of mime_type =
     (case nth_opt (split_on CHR ''/'' mime_type) 1 of
        None \<Rightarrow> ''jpeg''
      | Some e \<Rightarrow> if e = [] then ''jpeg'' else e)"

definition manifest_item :: "nat \<Rightarrow> string \<Rightarrow> string \<Rightarrow> string" where
  \<open>manifest_item imageCounter filename mime_type =
     ''<item id="img'' @ show_nat imageCounter @ ''" href="images/'' @ filename @
     ''" media-type="'' @ mime_type @ ''"/>''\<close>

text \<open>
  The body of the loop over the \<^verbatim>\<open>img\<close> elements, for one element: \<open>None\<close> when
  nothing is done, otherwise the new \<^verbatim>\<open>src\<close>, the file written to the images folder
  and the manifest item.
\<close>

definition rewrite_image :: "nat \<Rightarrow> string option \<Rightarrow> (string \<times> entry \<times> string) option" where
  "rewrite_image imageCounter src_attr =
     (case src_attr of
        None \<Rightarrow> None
      | Some src \<Rightarrow>
          (if src \<noteq> [] \<and> startsWith src ''data:'' then
             (case mime_match (header_of src) of
                None \<Rightarrow> None
              | Some mime_type \<Rightarrow>
                  (case base64Data_of src of
                     None \<Rightarrow> None
                   | Some base64Data \<Rightarrow>
                       (if base64Data = [] then None
                        else
                          (let extension = extension_of mime_type;
                               filename = ''image'' @ show_nat imageCounter @ ''.'' @ extension
                           in Some (''images/'' @ filename,
                                    \<lparr>entry_name = ''OEBPS/images/'' @ filename,
                                     entry_content = Base64 base64Data,
                                     entry_compression = None\<rparr>,
                                    manifest_item imageCounter filename mime_type)))))
           else None))"

text \<open>
  The state of the loop: \<^verbatim>\<open>imageCounter\<close>, the files written so far,
  \<^verbatim>\<open>imageManifestItems\<close>, and the \<^verbatim>\<open>src\<close> attributes of the elements visited so
  far as the loop leaves them.
\<close>

record image_pass =
  imageCounter :: nat
  written :: "entry list"
  imageManifestItems :: "string list"
  srcs_after :: "string option list"

definition image_step :: "image_pass \<Rightarrow> string option \<Rightarrow> image_pass" where
  "image_step st src_attr =
     (case rewrite_image (imageCounter st) src_attr of
        None \<Rightarrow> st\<lparr>srcs_after := srcs_after st @ [src_attr]\<rparr>
      | Some (src', f, item) \<Rightarrow>
          \<lparr>imageCounter = imageCounter st + 1,
           written = written st @ [f],
           imageManifestItems = imageManifestItems st @ [item],
           srcs_after = srcs_after st @ [Some src']\<rparr>)"

definition process_images :: "string option list \<Rightarrow> image_pass" where
  "process_images srcs =
     foldl image_step
       \<lparr>imageCounter = 0, written = [], imageManifestItems = [], srcs_after = []\<rparr> srcs"

definition navPoint :: "nat \<Rightarrow> string \<times> string option \<Rightarrow> string" where
  \<open>navPoint index link =
     (case link of (textContent, href_attr) \<Rightarrow>
        ''<navPoint id="navpoint-'' @ show_nat (index + 1) @ ''" playOrder="'' @
        show_nat (index + 1) @ ''">\<newline>'' @
        ''      <navLabel><text>'' @ textContent @ ''</text></navLabel>\<newline>'' @
        ''      <content src="content.xhtml'' @ (case href_attr of None \<Rightarrow> [] | Some href \<Rightarrow> href) @
        ''"/>\<newline>'' @
        ''    </navPoint>'')\<close>

definition stylesheet_link :: "(string \<times> string) list" where
  "stylesheet_link = [(''rel'', ''stylesheet''), (''type'', ''text/css''), (''href'', ''style.css'')]"

definition xhtml_wrap :: "string \<Rightarrow> string" where
  \<open>xhtml_wrap inner =
     ''<?xml version="1.0" encoding="UTF-8"?>\<newline>'' @
     ''<!DOCTYPE html PUBLIC "-//W3C//DTD XHTML 1.1//EN" "http://www.w3.org/TR/xhtml11/DTD/xhtml11.dtd">\<newline>'' @
     ''<html xmlns="http://www.w3.org/1999/xhtml">\<newline>'' @
     inner @
     ''\<newline>'' @
     ''</html>''\<close>

text \<open>\<^verbatim>\<open>doc.querySelector('title')?.textContent || title\<close>.\<close>

definition bookTitle_of :: "html_doc \<Rightarrow> string \<Rightarrow> string" where
  "bookTitle_of doc title =
     (case title_text doc of
        None \<Rightarrow> title
      | Some t \<Rightarrow> if t = [] then title else t)"

text \<open>
  What \<^verbatim>\<open>generateEpub\<close> takes from the JSZip library (\<^verbatim>\<open>window.JSZip\<close>, not part
  of the repository): whether \<^verbatim>\<open>file\<close> also adds an entry for the folder of a path
  (the library's default for its \<^verbatim>\<open>createFolders\<close> option), and which Base64 texts
  it can decode. A text it cannot decode makes \<^verbatim>\<open>generateAsync\<close> reject.
\<close>

record zip_library =
  createFolders :: bool
  can_decode :: "string \<Rightarrow> bool"

definition decodable_entry :: "zip_library \<Rightarrow> entry \<Rightarrow> bool" where
  "decodable_entry Z e = (case entry_content e of Base64 b \<Rightarrow> can_decode Z b | _ \<Rightarrow> True)"

text \<open>
  \<^verbatim>\<open>generateEpub\<close>: the entries of the archive in the order they are added, or the
  error with which \<^verbatim>\<open>generateAsync\<close> rejects. \<open>inner\<close> is the platform's
  serialization \<^verbatim>\<open>doc.documentElement.innerHTML\<close> of the changed document.
\<close>

definition generateEpub ::
  "zip_library \<Rightarrow> (html_doc \<Rightarrow> string) \<Rightarrow> html_doc \<Rightarrow> string \<Rightarrow> thrown + entry list" where
  "generateEpub Z inner doc title =
     (let bookTitle = bookTitle_of doc title;
          pass = process_images (img_srcs doc);
          doc1 = doc\<lparr>img_srcs := srcs_after pass\<rparr>;
          doc2 = (if head_present doc1
                  then doc1\<lparr>head_appended := head_appended doc1 @ [stylesheet_link]\<rparr>
                  else doc1);
          navPoints = map (\<lambda>(index, link). navPoint index link)
                        (zip [0..<length (toc_links doc2)] (toc_links doc2));
          tocNcxContent = createTocNcx bookTitle (join ''\<newline>'' navPoints);
          contentOpfContent = createContentOpf bookTitle (join ''\<newline>'' (imageManifestItems pass));
          entries =
            [\<lparr>entry_name = ''mimetype'', entry_content = Text ''application/epub+zip'',
               entry_compression = Some ''STORE''\<rparr>]
            @ (if createFolders Z
               then [\<lparr>entry_name = ''META-INF/'', entry_content = Folder, entry_compression = None\<rparr>]
               else [])
            @ [\<lparr>entry_name = ''META-INF/container.xml'', entry_content = Text createContainerXml,
                 entry_compression = None\<rparr>,
               \<lparr>entry_name = ''OEBPS/'', entry_content = Folder, entry_compression = None\<rparr>,
               \<lparr>entry_name = ''OEBPS/images/'', entry_content = Folder, entry_compression = None\<rparr>]
            @ written pass
            @ [\<lparr>entry_name = ''OEBPS/style.css'', entry_content = Text createCss,
                 entry_compression = None\<rparr>,
               \<lparr>entry_name = ''OEBPS/toc.ncx'', entry_content = Text tocNcxContent,
                 entry_compression = None\<rparr>,
               \<lparr>entry_name = ''OEBPS/content.xhtml'', entry_content = Text (xhtml_wrap (inner doc2)),
                 entry_compression = None\<rparr>,
               \<lparr>entry_name = ''OEBPS/content.opf'', entry_content = Text contentOpfContent,
                 entry_compression = None\<rparr>]
      in if list_all (decodable_entry Z) entries then Inr entries
         else Inl (new_Error ''Invalid base64 input''))"

section \<open>The session-load effect (App.tsx, the effect on the selected file)\<close>

record selected_file =
  file_name :: string
  file_size :: nat

definition sessionKey :: "selected_file \<Rightarrow> string" where
  "sessionKey f = ''epub-session-'' @ file_name f @ ''-'' @ show_nat (file_size f)"

text \<open>
  The body of the \<^verbatim>\<open>try\<close>: parse the saved text and test
  \<^verbatim>\<open>parsed.currentChunk && parsed.chatHistory\<close>; otherwise
  \<^verbatim>\<open>throw new Error("Invalid session data")\<close>. \<open>parse\<close> is \<^verbatim>\<open>JSON.parse\<close>.
\<close>

definition check_session :: "(string \<Rightarrow> string + json) \<Rightarrow> string \<Rightarrow> thrown + json" where
  "check_session parse savedSession =
     (case parse savedSession of
        Inl syntax_error \<Rightarrow> Inl (new_Error syntax_error)
      | Inr parsed \<Rightarrow>
          (case get_property parsed ''currentChunk'' of
             Inl err \<Rightarrow> Inl err
           | Inr currentChunk \<Rightarrow>
               (if truthy currentChunk then
                  (case get_property parsed ''chatHistory'' of
                     Inl err \<Rightarrow> Inl err
                   | Inr chatHistory \<Rightarrow>
                       (if truthy chatHistory then Inr parsed
                        else Inl (new_Error ''Invalid session data'')))
                else Inl (new_Error ''Invalid session data''))))"

text \<open>
  The effect: from the selected file and \<^verbatim>\<open>localStorage\<close> to the new value of
  \<^verbatim>\<open>resumableSession\<close> (\<open>None\<close> is \<^verbatim>\<open>null\<close>) and the new \<^verbatim>\<open>localStorage\<close>.
  \<^verbatim>\<open>getItem\<close> gives \<^verbatim>\<open>null\<close> for a missing key, and \<^verbatim>\<open>if (savedSession)\<close> is
  also false for the empty text.
\<close>

definition load_session ::
  "(string \<Rightarrow> string + json) \<Rightarrow> selected_file option \<Rightarrow> (string \<Rightarrow> string option)
    \<Rightarrow> json option \<times> (string \<Rightarrow> string option)" where
  "load_session parse selected localStorage =
     (case selected of
        None \<Rightarrow> (None, localStorage)
      | Some f \<Rightarrow>
          (case localStorage (sessionKey f) of
             None \<Rightarrow> (None, localStorage)
           | Some savedSession \<Rightarrow>
               (if savedSession = [] then (None, localStorage)
                else
                  (case check_session parse savedSession of
                     Inr parsed \<Rightarrow> (Some parsed, localStorage)
                   | Inl err \<Rightarrow> (None, localStorage((sessionKey f) := None))))))"

section \<open>Image normalization (App.tsx, handleConvert)\<close>

type_synonym byte = "8 word"

text \<open>An image object of pdf.js: \<^verbatim>\<open>img.width\<close>, \<^verbatim>\<open>img.height\<close>, \<^verbatim>\<open>img.data\<close>.\<close>

record raw_image =
  width :: nat
  height :: nat
  pixels :: "byte list"

text \<open>
  Reading a typed array past its end gives \<^verbatim>\<open>undefined\<close>, which a
  \<^verbatim>\<open>Uint8ClampedArray\<close> stores as 0; writing past the end of a typed array is ignored,
  as list update is.
\<close>

definition rd :: "byte list \<Rightarrow> nat \<Rightarrow> byte" where
  "rd d l = (if l < length d then d ! l else 0)"

text \<open>
  \<^verbatim>\<open>ctx.createImageData(w, h)\<close>: an IndexSizeError when a side is zero, otherwise
  \<open>4 w h\<close> zero bytes.
\<close>

definition createImageData :: "nat \<Rightarrow> nat \<Rightarrow> thrown + byte list" where
  "createImageData w h =
     (if w = 0 \<or> h = 0 then Inl (new_Error ''IndexSizeError'')
      else Inr (replicate (w * h * 4) 0))"

text \<open>The loop \<^verbatim>\<open>for (let l = 0; l < img.data.length; l += 3)\<close> of the RGB branch.\<close>

function rgb_loop :: "byte list \<Rightarrow> nat \<Rightarrow> nat \<Rightarrow> byte list \<Rightarrow> byte list" where
  "rgb_loop d l k out =
     (if l < length d then
        rgb_loop d (l + 3) (k + 4)
          (out[k := rd d l, k + 1 := rd d (l + 1), k + 2 := rd d (l + 2), k + 3 := 255])
      else out)"
  by pat_completeness auto
termination
  by (relation "measure (\<lambda>(d, l, k, out). length d - l)") auto

declare rgb_loop.simps [simp del]

text \<open>The loop \<^verbatim>\<open>for (let l = 0; l < img.data.length; l++)\<close> of the fallback branch.\<close>

function gray_loop :: "byte list \<Rightarrow> nat \<Rightarrow> nat \<Rightarrow> byte list \<Rightarrow> byte list" where
  "gray_loop d l k out =
     (if l < length d then
        gray_loop d (l + 1) (k + 4)
          (out[k := rd d l, k + 1 := rd d l, k + 2 := rd d l, k + 3 := 255])
      else out)"
  by pat_completeness auto
termination
  by (relation "measure (\<lambda>(d, l, k, out). length d - l)") auto

declare gray_loop.simps [simp del]

text \<open>
  \<^verbatim>\<open>imageData.data.set(img.data)\<close>: a RangeError when the source is longer than the
  target, otherwise the source overwrites the start of the target.
\<close>

definition typed_set :: "byte list \<Rightarrow> byte list \<Rightarrow> thrown + byte list" where
  "typed_set out src =
     (if length out < length src then Inl (new_Error ''RangeError'')
      else Inr (src @ drop (length src) out))"

definition normalize_image :: "raw_image \<Rightarrow> thrown + byte list" where
  "normalize_image img =
     (case createImageData (width img) (height img) of
        Inl err \<Rightarrow> Inl err
      | Inr imageData \<Rightarrow>
          (if length (pixels img) = width img * height img * 3 then
             Inr (rgb_loop (pixels img) 0 0 imageData)
           else if length (pixels img) = width img * height img * 4 then
             typed_set imageData (pixels img)
           else
             Inr (gray_loop (pixels img) 0 0 imageData)))"

section \<open>The conversion loop (App.tsx, handleConvert)\<close>

text \<open>
  A page as pdf.js gives it: the \<^verbatim>\<open>str\<close> of every text item, and the operator list.
  For a \<^verbatim>\<open>paintImageXObject\<close> operator the model keeps the image that
  \<^verbatim>\<open>page.commonObjs.get\<close> yields, or \<open>None\<close> when the lookup throws, yields nothing,
  yields an object without pixel data, or no 2D context can be had: the code skips the
  image in each of these cases.
\<close>

datatype page_op = PaintImageXObject "raw_image option" | OtherOp

record page =
  text_items :: "string list"
  ops :: "page_op list"

text \<open>
  What the conversion takes from outside: the document (\<^verbatim>\<open>pdf.numPages\<close>,
  \<^verbatim>\<open>pdf.getPage\<close>), the canvas encoder (the text after the comma of
  \<^verbatim>\<open>canvas.toDataURL('image/png')\<close>), the service (\<open>sendMessage n h m\<close> is what the
  \<open>n\<close>-th call of \<^verbatim>\<open>chat.sendMessage\<close> of the whole run does on a chat with history
  \<open>h\<close> and message \<open>m\<close>), the random source, \<^verbatim>\<open>JSON.parse\<close>, the prompt constant,
  the platform's HTML parser and serializer (the parser applied to whatever value the
  finalize step returned), and the JSZip library.
\<close>

record 'c env =
  pdf_numPages :: nat
  getPage :: "nat \<Rightarrow> page"
  encode_png :: "nat \<Rightarrow> nat \<Rightarrow> byte list \<Rightarrow> string"
  sendMessage :: "nat \<Rightarrow> 'c list \<Rightarrow> message \<Rightarrow> thrown + 'c list response"
  random :: "nat \<Rightarrow> nat"
  JSON_parse :: "string \<Rightarrow> string + json"
  FINAL_PROMPT_INSTRUCTIONS :: string
  parseFromString :: "json \<Rightarrow> html_doc"
  innerHTML :: "html_doc \<Rightarrow> string"
  jszip :: zip_library

text \<open>The persisted session record.\<close>

record 'c session_data =
  currentChunk :: nat
  numPages :: nat
  chatHistory :: "'c list"
  allImages :: "image list"

text \<open>
  What the run does to the outside, in order: writes and removals on
  \<^verbatim>\<open>localStorage\<close>, calls of \<^verbatim>\<open>sendPdfChunkToChat\<close> (with the chat's history at
  the call, the chunk text, the chunk's images and the page range), the call of
  \<^verbatim>\<open>finishEpubConversionChat\<close>, and the throttle sleeps. The progress display is
  left out.
\<close>

datatype 'c event =
    SetItem string "'c session_data"
  | RemoveItem string
  | SendChunk "'c list" string "image list" nat nat
  | Finish "'c list"
  | Sleep nat

definition THROTTLE_MS :: nat where
  "THROTTLE_MS = 1500"

text \<open>
  One operator of a page: the state is \<^verbatim>\<open>chunkText\<close>, \<^verbatim>\<open>chunkImages\<close> and
  \<^verbatim>\<open>allImages\<close>. An error thrown while the image is handled is caught and logged.
\<close>

definition extract_image ::
  "'c env \<Rightarrow> page_op \<Rightarrow> string \<times> image list \<times> image list \<Rightarrow> string \<times> image list \<times> image list" where
  "extract_image E operator st =
     (case st of (chunkText, chunkImages, images) \<Rightarrow>
        (case operator of
           OtherOp \<Rightarrow> st
         | PaintImageXObject None \<Rightarrow> st
         | PaintImageXObject (Some img) \<Rightarrow>
             (case normalize_image img of
                Inl err \<Rightarrow> st
              | Inr imageData \<Rightarrow>
                  (let imageDataObj =
                         \<lparr>mimeType = ''image/png'',
                          data = encode_png E (width img) (height img) imageData\<rparr>;
                       images' = images @ [imageDataObj]
                   in (chunkText @ ''\<newline>[IMAGE_'' @ show_nat (length images' - 1) @ '']\<newline>'',
                       chunkImages @ [imageDataObj],
                       images')))))"

definition extract_page ::
  "'c env \<Rightarrow> nat \<Rightarrow> string \<times> image list \<times> image list \<Rightarrow> string \<times> image list \<times> image list" where
  "extract_page E pageNum st =
     (case st of (chunkText, chunkImages, images) \<Rightarrow>
        (let pageText = join ''\<newline>'' (text_items (getPage E pageNum));
             chunkText' = chunkText @ ''\<newline>\<newline>--- PAGE '' @ show_nat pageNum @
               '' ---\<newline>\<newline>'' @ pageText
         in foldl (\<lambda>s operator. extract_image E operator s) (chunkText', chunkImages, images)
              (ops (getPage E pageNum))))"

definition extract_chunk ::
  "'c env \<Rightarrow> nat \<Rightarrow> nat \<Rightarrow> image list \<Rightarrow> string \<times> image list \<times> image list" where
  "extract_chunk E P i images =
     foldl (\<lambda>s pageNum. extract_page E pageNum s) ([], [], images) (chunk_pages P i)"

text \<open>
  The state of a run: what it ended with (the thrown error, or the chat history and the
  image sequence after the last chunk), the number of \<^verbatim>\<open>chat.sendMessage\<close> calls made
  so far, and the events so far.
\<close>

record ('c, 'a) run =
  ended :: "thrown + 'a"
  calls :: nat
  trace :: "'c event list"

text \<open>
  The loop \<^verbatim>\<open>for (let i = resumeFromChunk; i < numChunks; i++)\<close>: extract the chunk's
  pages, save the session with \<^verbatim>\<open>currentChunk: i\<close>, send the chunk, save the session
  with \<^verbatim>\<open>currentChunk: i + 1\<close>, sleep. A failed send leaves the loop by its exception.
\<close>

function convert_loop ::
  "'c env \<Rightarrow> string \<Rightarrow> nat \<Rightarrow> nat \<Rightarrow> 'c list \<Rightarrow> image list \<Rightarrow> nat \<Rightarrow> 'c event list
    \<Rightarrow> ('c, 'c list \<times> image list) run" where
  "convert_loop E key P i chat images n tr =
     (if i < numChunks P then
        (case extract_chunk E P i images of (chunkText, chunkImages, images') \<Rightarrow>
           (let sessionDataToSave =
                  \<lparr>currentChunk = i, numPages = P, chatHistory = chat, allImages = images'\<rparr>;
                tr1 = tr @ [SetItem key sessionDataToSave,
                            SendChunk chat chunkText chunkImages (startPage i) (endPage P i)];
                r = sendPdfChunkToChat (\<lambda>m k. sendMessage E (n + k) chat m) (\<lambda>k. random E (n + k))
                      chunkText chunkImages (startPage i) (endPage P i)
            in case outcome r of
                 Inl err \<Rightarrow> \<lparr>ended = Inl err, calls = n + attempts r, trace = tr1\<rparr>
               | Inr resp \<Rightarrow>
                   (let sessionDataAfterSuccess =
                          \<lparr>currentChunk = i + 1, numPages = P,
                           chatHistory = history_after resp, allImages = images'\<rparr>
                    in convert_loop E key P (i + 1) (history_after resp) images' (n + attempts r)
                         (tr1 @ [SetItem key sessionDataAfterSuccess, Sleep THROTTLE_MS]))))
      else \<lparr>ended = Inr (chat, images), calls = n, trace = tr\<rparr>)"
  by pat_completeness auto
termination
  by (relation "measure (\<lambda>(E, key, P, i, chat, images, n, tr). numChunks P - i)") auto

declare convert_loop.simps [simp del]

text \<open>\<^verbatim>\<open>file.name.replace(/\.pdf$/i, '')\<close>.\<close>

definition strip_pdf :: "string \<Rightarrow> string" where
  "strip_pdf s =
     (if 4 \<le> length s \<and> toLowerCase (drop (length s - 4) s) = ''.pdf''
      then take (length s - 4) s else s)"

text \<open>
  \<^verbatim>\<open>handleConvert(forceNew)\<close> for a selected file. \<open>resumable\<close> is the state
  \<^verbatim>\<open>resumableSession\<close>, read as the record the loop writes; \<open>confirmed\<close> is the answer
  of \<^verbatim>\<open>window.confirm\<close>, asked only when a resume is possible and this is not a retry.
  The result is the archive or the error that the \<^verbatim>\<open>catch\<close> reports.
\<close>

definition handleConvert ::
  "'c env \<Rightarrow> selected_file \<Rightarrow> 'c session_data option \<Rightarrow> bool \<Rightarrow> bool \<Rightarrow> bool
    \<Rightarrow> ('c, entry list) run" where
  "handleConvert E f resumable forceNew isRetriable confirmed =
     (let key = sessionKey f;
          shouldResume0 = (resumable \<noteq> None \<and> \<not> forceNew);
          shouldResume = (if shouldResume0 \<and> \<not> isRetriable then confirmed else shouldResume0);
          P = pdf_numPages E;
          r = (case (if shouldResume then resumable else None) of
                 Some session \<Rightarrow>
                   convert_loop E key P (currentChunk session)
                     (startEpubConversionChat (Some (chatHistory session)))
                     (allImages session) 0 []
               | None \<Rightarrow>
                   convert_loop E key P 0 (startEpubConversionChat None) [] 0 [RemoveItem key])
      in case ended r of
           Inl err \<Rightarrow> \<lparr>ended = Inl err, calls = calls r, trace = trace r\<rparr>
         | Inr (chat, images) \<Rightarrow>
             (let fin = finishEpubConversionChat (\<lambda>m k. sendMessage E (calls r + k) chat m)
                          (\<lambda>k. random E (calls r + k)) (JSON_parse E) (FINAL_PROMPT_INSTRUCTIONS E)
              in case outcome fin of
                   Inl err \<Rightarrow>
                     \<lparr>ended = Inl err, calls = calls r + attempts fin,
                      trace = trace r @ [Finish chat]\<rparr>
                 | Inr generatedHtml \<Rightarrow>
                     (case generateEpub (jszip E) (innerHTML E) (parseFromString E generatedHtml)
                             (strip_pdf (file_name f)) of
                        Inl err \<Rightarrow>
                          \<lparr>ended = Inl err, calls = calls r + attempts fin,
                           trace = trace r @ [Finish chat]\<rparr>
                      | Inr epub \<Rightarrow>
                          \<lparr>ended = Inr epub, calls = calls r + attempts fin,
                           trace = trace r @ [Finish chat, RemoveItem key]\<rparr>)))"

section \<open>Notions used to state the claims about the conversation client\<close>

text \<open>
  An attempt that fails with an error the loop classifies as retriable: the quota test,
  which comes first, is negative and \<^verbatim>\<open>isRetriableError\<close> is true.
\<close>

definition retriable_failure :: "(thrown + 'r) \<Rightarrow> bool" where
  "retriable_failure x = (case x of Inl err \<Rightarrow> \<not> isQuotaError err \<and> isRetriableError err | Inr _ \<Rightarrow> False)"

text \<open>
  The value of \<^verbatim>\<open>delay\<close> at the start of attempt \<open>k\<close> when every earlier attempt was
  retried.
\<close>

primrec backoff :: "(nat \<Rightarrow> nat) \<Rightarrow> nat \<Rightarrow> nat" where
  "backoff rnd 0 = INITIAL_DELAY_MS"
| "backoff rnd (Suc k) = backoff rnd k * 2 + rnd k"

text \<open>
  The shape the finalize prompt asks for: an object whose \<^verbatim>\<open>htmlContent\<close> member is a
  string. The argument is the result of \<^verbatim>\<open>JSON.parse\<close> on the cleaned response text.
\<close>

definition has_htmlContent_string :: "string + json \<Rightarrow> bool" where
  "has_htmlContent_string parsed =
     (case parsed of
        Inr (JObject kvs) \<Rightarrow> (case map_of kvs ''htmlContent'' of Some (JString s) \<Rightarrow> True | _ \<Rightarrow> False)
      | _ \<Rightarrow> False)"

text \<open>What the code tests instead: an object whose \<^verbatim>\<open>htmlContent\<close> member is truthy.\<close>

definition has_truthy_htmlContent :: "string + json \<Rightarrow> bool" where
  "has_truthy_htmlContent parsed =
     (case parsed of
        Inr (JObject kvs) \<Rightarrow> truthy (map_of kvs ''htmlContent'')
      | _ \<Rightarrow> False)"

text \<open>
  Concrete services and responses for the examples: a service whose every call fails
  with a 503; an \<^verbatim>\<open>Error\<close> object as the service's SDK throws it, whose message
  reports the exhausted quota and whose enumerable properties are its name and the HTTP
  status, so that \<^verbatim>\<open>JSON.stringify\<close> gives only those; a service that answers every
  call with a given text,
  and two response texts with the value \<^verbatim>\<open>JSON.parse\<close> gives for them.
\<close>

definition always_503 :: "nat \<Rightarrow> thrown + unit" where
  "always_503 k = Inl (Thrown False [] ''HTTP 503'')"

definition api_quota_error :: thrown where
  \<open>api_quota_error =
     Thrown True ''Quota exceeded (daily limit)'' ''{"name":"ApiError","status":429}''\<close>

definition answer_with :: "string \<Rightarrow> message \<Rightarrow> nat \<Rightarrow> thrown + unit response" where
  "answer_with t m k = Inr \<lparr>text_of = Some t, history_after = ()\<rparr>"

definition number_response :: string where
  \<open>number_response = ''{"htmlContent":42}''\<close>

definition parse_number_response :: "string \<Rightarrow> string + json" where
  "parse_number_response s =
     (if s = number_response then Inr (JObject [(''htmlContent'', JNumber 42)])
      else Inl ''Unexpected token'')"

definition empty_response :: string where
  \<open>empty_response = ''{}''\<close>

definition parse_empty_response :: "string \<Rightarrow> string + json" where
  "parse_empty_response s = (if s = empty_response then Inr (JObject []) else Inl ''Unexpected token'')"

section \<open>Notions used to state the claims about the conversion loop\<close>

text \<open>
  The events that matter for the snapshot protocol: a session write, reduced to its
  \<^verbatim>\<open>currentChunk\<close>, and a chunk submission, reduced to its page range.
\<close>

datatype mark = Snap nat | Sub nat nat

fun mark_of :: "'c event \<Rightarrow> mark list" where
  "mark_of (SetItem key s) = [Snap (currentChunk s)]"
| "mark_of (SendChunk chat body images s e) = [Sub s e]"
| "mark_of (RemoveItem key) = []"
| "mark_of (Finish chat) = []"
| "mark_of (Sleep ms) = []"

definition marks :: "'c event list \<Rightarrow> mark list" where
  "marks tr = concat (map mark_of tr)"

text \<open>
  The protocol, for a run that starts at chunk \<open>i\<close>: nothing at all; or the snapshot
  \<open>i\<close> and the submission of chunk \<open>i\<close>, and nothing after (the submission failed); or
  the snapshot \<open>i\<close>, the submission of chunk \<open>i\<close>, the snapshot \<open>i + 1\<close>, and then the
  protocol from chunk \<open>i + 1\<close>.
\<close>

fun snapshot_discipline :: "nat \<Rightarrow> nat \<Rightarrow> mark list \<Rightarrow> bool" where
  "snapshot_discipline P i [] = True"
| "snapshot_discipline P i [Snap a, Sub s e] = (a = i \<and> s = startPage i \<and> e = endPage P i)"
| "snapshot_discipline P i (Snap a # Sub s e # Snap b # rest) =
     (a = i \<and> s = startPage i \<and> e = endPage P i \<and> b = i + 1 \<and> snapshot_discipline P (i + 1) rest)"
| "snapshot_discipline P i ms = False"

definition chunk_marks :: "nat \<Rightarrow> nat \<Rightarrow> mark list" where
  "chunk_marks P i = [Snap i, Sub (startPage i) (endPage P i), Snap (i + 1)]"

text \<open>The call of \<^verbatim>\<open>sendPdfChunkToChat\<close> that the loop makes for chunk \<open>i\<close>.\<close>

definition send_chunk ::
  "'c env \<Rightarrow> nat \<Rightarrow> nat \<Rightarrow> 'c list \<Rightarrow> image list \<Rightarrow> nat \<Rightarrow> ('c list response) retry_outcome" where
  "send_chunk E P i chat images n =
     sendPdfChunkToChat (\<lambda>m k. sendMessage E (n + k) chat m) (\<lambda>k. random E (n + k))
       (fst (extract_chunk E P i images)) (fst (snd (extract_chunk E P i images)))
       (startPage i) (endPage P i)"

text \<open>The page ranges of the chunk submissions of a trace, in order.\<close>

fun sent_of :: "'c event \<Rightarrow> (nat \<times> nat) list" where
  "sent_of (SendChunk chat body images s e) = [(s, e)]"
| "sent_of ev = []"

definition submissions :: "'c event list \<Rightarrow> (nat \<times> nat) list" where
  "submissions tr = concat (map sent_of tr)"

definition chunk_range :: "nat \<Rightarrow> nat \<Rightarrow> nat \<times> nat" where
  "chunk_range P i = (startPage i, endPage P i)"

text \<open>
  An environment whose service answers every call with the text \<open>t\<close>, which parses to an
  object whose \<^verbatim>\<open>htmlContent\<close> is the truthy value \<open>v\<close>, from which the packager
  makes an archive; and a concrete one, with a
  document of 7 pages without text or images, and a session saved after chunk 0.
\<close>

definition answering :: "'c env \<Rightarrow> string \<Rightarrow> json \<Rightarrow> bool" where
  "answering E t v =
     ((\<forall>n h m. \<exists>hist. sendMessage E n h m = Inr \<lparr>text_of = Some t, history_after = hist\<rparr>)
      \<and> JSON_parse E (cleaned_text t) = Inr (JObject [(''htmlContent'', v)])
      \<and> truthy (Some v)
      \<and> (\<forall>title. \<exists>epub.
            generateEpub (jszip E) (innerHTML E) (parseFromString E v) title = Inr epub))"

definition html_answer :: string where
  \<open>html_answer = ''{"htmlContent":"<p/>"}''\<close>

definition quiet_env :: "nat env" where
  "quiet_env =
     \<lparr>pdf_numPages = 7,
      getPage = (\<lambda>p. \<lparr>text_items = [], ops = []\<rparr>),
      encode_png = (\<lambda>w h b. []),
      sendMessage = (\<lambda>n h m. Inr \<lparr>text_of = Some html_answer, history_after = h @ [n]\<rparr>),
      random = (\<lambda>k. 0),
      JSON_parse = (\<lambda>s. if s = html_answer then Inr (JObject [(''htmlContent'', JString ''<p/>'')])
                         else Inl ''Unexpected token''),
      FINAL_PROMPT_INSTRUCTIONS = [],
      parseFromString = (\<lambda>v. \<lparr>title_text = None, head_present = False, head_appended = [],
                                 img_srcs = [], toc_links = []\<rparr>),
      innerHTML = (\<lambda>d. []),
      jszip = \<lparr>createFolders = True, can_decode = (\<lambda>b. True)\<rparr>\<rparr>"

definition resumed_session :: "nat session_data" where
  "resumed_session = \<lparr>currentChunk = 1, numPages = 7, chatHistory = [0], allImages = []\<rparr>"

text \<open>
  An image of 2 by 1 pixels whose buffer has 3 bytes: neither 6 (RGB), nor 8 (RGBA), nor
  2 (one byte per pixel).
\<close>

definition odd_image :: raw_image where
  "odd_image = \<lparr>width = 2, height = 1, pixels = [7, 9, 11]\<rparr>"

text \<open>
  The same environment with a service that rejects every call with an error that is
  neither a quota error nor retriable.
\<close>

definition bad_request :: thrown where
  "bad_request = Thrown True ''Bad Request'' ''{}''"

definition rejecting_env :: "nat env" where
  "rejecting_env = quiet_env\<lparr>sendMessage := (\<lambda>n h m. Inl bad_request)\<rparr>"

section \<open>Notions used to state the claims about the packager and the session load\<close>

text \<open>
  An \<^verbatim>\<open>img\<close> element that the packager treats as an inline image: its \<^verbatim>\<open>src\<close> is
  present, starts with \<^verbatim>\<open>data:\<close>, has a header from which the mime type can be read,
  and has a non-empty payload after the first comma.
\<close>

definition inline_image :: "string option \<Rightarrow> bool" where
  "inline_image src_attr =
     (case src_attr of
        None \<Rightarrow> False
      | Some src \<Rightarrow>
          startsWith src ''data:'' \<and> mime_match (header_of src) \<noteq> None
          \<and> (case base64Data_of src of None \<Rightarrow> False | Some b \<Rightarrow> b \<noteq> []))"

text \<open>The files of an archive under the images folder.\<close>

definition image_files :: "entry list \<Rightarrow> entry list" where
  "image_files archive =
     filter (\<lambda>e. startsWith (entry_name e) ''OEBPS/images/'' \<and> entry_content e \<noteq> Folder) archive"

text \<open>The \<^verbatim>\<open>src\<close> of an inline PNG image with the given Base64 payload.\<close>

definition png_src :: "string \<Rightarrow> string option" where
  "png_src payload = Some (''data:image/png;base64,'' @ payload)"

text \<open>
  Concrete inputs for the examples: a library that adds folder entries and decodes every
  text; a document with a title, two inline PNG images and a table of contents of three
  links; and a list of \<^verbatim>\<open>src\<close> attributes of which only the second is an inline image.
\<close>

definition plain_zip :: zip_library where
  "plain_zip = \<lparr>createFolders = True, can_decode = (\<lambda>b. True)\<rparr>"

definition two_images_doc :: html_doc where
  "two_images_doc =
     \<lparr>title_text = Some ''Book'', head_present = True, head_appended = [],
      img_srcs = [png_src ''AAAA'', png_src ''BBBB''],
      toc_links = [(''One'', Some ''#one''), (''Two'', Some ''#two''), (''Three'', None)]\<rparr>"


text \<open>
  The session record that a fresh conversion of a 12-page document without images
  writes before it submits chunk 0, as the value \<^verbatim>\<open>JSON.parse\<close> gives for its saved
  text; a \<^verbatim>\<open>JSON.parse\<close> that knows this one text; a selected file; and a
  \<^verbatim>\<open>localStorage\<close> holding one item.
\<close>

definition chunk0_record :: json where
  "chunk0_record =
     JObject [(''currentChunk'', JNumber 0), (''numPages'', JNumber 12),
              (''chatHistory'', JArray []), (''allImages'', JArray [])]"

definition chunk0_text :: string where
  \<open>chunk0_text = ''{"currentChunk":0,"numPages":12,"chatHistory":[],"allImages":[]}''\<close>

definition parse_chunk0 :: "string \<Rightarrow> string + json" where
  "parse_chunk0 s = (if s = chunk0_text then Inr chunk0_record else Inl ''Unexpected token'')"

definition book_pdf :: selected_file where
  "book_pdf = \<lparr>file_name = ''book.pdf'', file_size = 1024\<rparr>"

definition store_with :: "string \<Rightarrow> string \<Rightarrow> string \<Rightarrow> string option" where
  "store_with key saved = (\<lambda>k. if k = key then Some saved else None)"

section \<open>Facts about chunk slicing\<close>

lemma numChunks_div: "numChunks P = (P + 4) div 5"
  unfolding numChunks_def CHUNK_SIZE_def by linarith

lemma chunk_nonempty:
  assumes "i < numChunks P"
  shows "startPage i \<le> endPage P i"
  using assms unfolding numChunks_div startPage_def endPage_def CHUNK_SIZE_def by simp

lemma chunk_last:
  assumes "1 \<le> P"
  shows "endPage P (numChunks P - 1) = P"
  using assms unfolding numChunks_div endPage_def CHUNK_SIZE_def by simp

lemma chunk_next:
  assumes "Suc i < numChunks P"
  shows "startPage (Suc i) = Suc (endPage P i)"
  using assms unfolding numChunks_div startPage_def endPage_def CHUNK_SIZE_def by simp

lemma chunk_pages_concat_upto:
  assumes "n \<le> numChunks P" "m \<le> n"
  shows "concat (map (chunk_pages P) [m..<n]) = [startPage m ..< Suc (min (n * CHUNK_SIZE) P)]"
  using assms
proof (induction n)
  case 0
  then show ?case by (simp add: startPage_def)
next
  case (Suc n)
  show ?case
  proof (cases "m = Suc n")
    case True
    have "[startPage (Suc n) ..< Suc (min (Suc n * CHUNK_SIZE) P)] = []"
      unfolding startPage_def by simp
    with True show ?thesis by simp
  next
    case False
    with Suc.prems have mn: "m \<le> n" and nn: "n \<le> numChunks P" and lt: "n < numChunks P"
      by simp_all
    have ih: "concat (map (chunk_pages P) [m..<n]) = [startPage m ..< Suc (min (n * CHUNK_SIZE) P)]"
      using Suc.IH [OF nn mn] .
    have np: "n * CHUNK_SIZE < P"
      using lt unfolding numChunks_div CHUNK_SIZE_def by simp
    have a: "Suc (min (n * CHUNK_SIZE) P) = startPage n"
      using np by (simp add: startPage_def)
    have b: "startPage m \<le> startPage n"
      using mn by (simp add: startPage_def)
    have c: "startPage n \<le> Suc (endPage P n)"
      using chunk_nonempty [OF lt] by simp
    have "concat (map (chunk_pages P) [m..<Suc n]) =
        [startPage m ..< startPage n] @ [startPage n ..< Suc (endPage P n)]"
      using mn ih a by (simp add: chunk_pages_def)
    also have "\<dots> = [startPage m ..< Suc (endPage P n)]"
      using b c by (metis le_Suc_ex upt_add_eq_append)
    finally show ?thesis by (simp add: endPage_def)
  qed
qed

section \<open>Facts about the retry loop and the finalize step\<close>

lemma retry_step:
  assumes "attempt < 6" "retriable_failure (send attempt)"
  shows "retry_loop send rnd attempt delay slept =
         retry_loop send rnd (Suc attempt) (delay * 2 + rnd attempt) (slept @ [delay])"
proof -
  from assms(2) obtain err where "send attempt = Inl err" "\<not> isQuotaError err" "isRetriableError err"
    by (auto simp: retriable_failure_def split: sum.splits)
  with assms(1) show ?thesis
    by (simp add: retry_loop.simps [of send rnd attempt delay slept] MAX_RETRIES_def)
qed

lemma retry_stop_success:
  assumes "attempt < 7" "send attempt = Inr resp"
  shows "retry_loop send rnd attempt delay slept =
         \<lparr>outcome = Inr resp, attempts = Suc attempt, delays = slept\<rparr>"
  using assms by (simp add: retry_loop.simps [of send rnd attempt delay slept] MAX_RETRIES_def)

lemma retry_stop_quota:
  assumes "attempt < 7" "send attempt = Inl err" "isQuotaError err"
  shows "retry_loop send rnd attempt delay slept =
         \<lparr>outcome = Inl err, attempts = Suc attempt, delays = slept\<rparr>"
  using assms by (simp add: retry_loop.simps [of send rnd attempt delay slept] MAX_RETRIES_def)

lemma retry_stop_other:
  assumes "attempt < 7" "send attempt = Inl err" "\<not> isRetriableError err \<or> attempt = 6"
  shows "retry_loop send rnd attempt delay slept =
         \<lparr>outcome = Inl err, attempts = Suc attempt, delays = slept\<rparr>"
  using assms by (auto simp add: retry_loop.simps [of send rnd attempt delay slept] MAX_RETRIES_def)

lemma retry_loop_run:
  assumes "a + n < 7" "\<forall>j. a \<le> j \<and> j < a + n \<longrightarrow> retriable_failure (send j)"
  shows "retry_loop send rnd a (backoff rnd a) slept =
         retry_loop send rnd (a + n) (backoff rnd (a + n)) (slept @ map (backoff rnd) [a ..< a + n])"
  using assms
proof (induction n arbitrary: )
  case 0
  then show ?case by simp
next
  case (Suc n)
  have "retry_loop send rnd a (backoff rnd a) slept =
         retry_loop send rnd (a + n) (backoff rnd (a + n)) (slept @ map (backoff rnd) [a ..< a + n])"
    using Suc by simp
  also have "\<dots> = retry_loop send rnd (Suc (a + n)) (backoff rnd (Suc (a + n)))
        ((slept @ map (backoff rnd) [a ..< a + n]) @ [backoff rnd (a + n)])"
    using Suc.prems by (subst retry_step) simp_all
  finally show ?case by simp
qed

lemma retry_run0:
  assumes "k < 7" "\<forall>j<k. retriable_failure (send j)"
  shows "sendMessageWithRetry send rnd =
         retry_loop send rnd k (backoff rnd k) (map (backoff rnd) [0 ..< k])"
  using retry_loop_run [of 0 k send rnd "[]"] assms
  by (simp add: sendMessageWithRetry_def)

lemma retry_quota_at:
  assumes "k < 7" "\<forall>j<k. retriable_failure (send j)" "send k = Inl err" "isQuotaError err"
  shows "sendMessageWithRetry send rnd =
         \<lparr>outcome = Inl err, attempts = Suc k, delays = map (backoff rnd) [0..<k]\<rparr>"
  using assms by (simp add: retry_run0 [of k send rnd] retry_stop_quota)

lemma retry_success_at:
  assumes "k < 7" "\<forall>j<k. retriable_failure (send j)" "send k = Inr resp"
  shows "sendMessageWithRetry send rnd =
         \<lparr>outcome = Inr resp, attempts = Suc k, delays = map (backoff rnd) [0..<k]\<rparr>"
  using assms by (simp add: retry_run0 [of k send rnd] retry_stop_success)

lemma backoff_double: "2 * backoff rnd k \<le> backoff rnd (Suc k)"
  by simp

lemma backoff_mono: "i \<le> j \<Longrightarrow> backoff rnd i \<le> backoff rnd j"
proof (induction j)
  case 0
  then show ?case by simp
next
  case (Suc j)
  show ?case
  proof (cases "i = Suc j")
    case True
    then show ?thesis by simp
  next
    case False
    with Suc have "backoff rnd i \<le> backoff rnd j" by simp
    then show ?thesis by simp
  qed
qed

lemma sorted_backoff: "sorted (map (backoff rnd) [0..<n])"
  by (simp add: sorted_iff_nth_mono backoff_mono)

lemma retriable_503: "retriable_failure (always_503 k)"
  by (simp add: always_503_def retriable_failure_def isQuotaError_def isRetriableError_def
      errorString_def toLowerCase_def toLowerCase_char_def)

lemma read_htmlContent_absent:
  assumes "\<not> has_truthy_htmlContent (parse (cleaned_text t))"
  shows "\<exists>m. read_htmlContent parse (Some t) = Inl (new_Error m)"
  using assms
  by (cases "parse (cleaned_text t)"; cases "projr (parse (cleaned_text t))")
     (auto simp: read_htmlContent_def has_truthy_htmlContent_def
        split: sum.splits json.splits option.splits)

lemma read_htmlContent_present:
  assumes "parse (cleaned_text t) = Inr (JObject kvs)" "map_of kvs ''htmlContent'' = Some v"
    "truthy (Some v)"
  shows "read_htmlContent parse (Some t) = Inr v"
  using assms by (simp add: read_htmlContent_def)

lemma cleaned_number_response: "cleaned_text number_response = number_response"
  by (simp add: cleaned_text_def number_response_def trim_def is_space_def strip_fence_open_def
      strip_fence_close_def fence_def)

lemma cleaned_empty_response: "cleaned_text empty_response = empty_response"
  by (simp add: cleaned_text_def empty_response_def trim_def is_space_def strip_fence_open_def
      strip_fence_close_def fence_def)

lemma quota_classified_stops:
  assumes "includes_str (errorString err) ''daily limit''
           \<or> includes_str (errorString err) ''quota exceeded''"
  shows "(send 0 = Inl err \<longrightarrow>
            sendMessageWithRetry send rnd = \<lparr>outcome = Inl err, attempts = 1, delays = []\<rparr>)
    \<and> (\<forall>k<7. (\<forall>j<k. retriable_failure (send j)) \<and> send k = Inl err \<longrightarrow>
            outcome (sendMessageWithRetry send rnd) = Inl err
          \<and> attempts (sendMessageWithRetry send rnd) = Suc k
          \<and> length (delays (sendMessageWithRetry send rnd)) = k)"
proof -
  from assms have q: "isQuotaError err"
    by (simp add: isQuotaError_def)
  have first: "send 0 = Inl err \<longrightarrow>
      sendMessageWithRetry send rnd = \<lparr>outcome = Inl err, attempts = 1, delays = []\<rparr>"
    using retry_quota_at [of 0 send err rnd] q by simp
  have later: "\<forall>k<7. (\<forall>j<k. retriable_failure (send j)) \<and> send k = Inl err \<longrightarrow>
            outcome (sendMessageWithRetry send rnd) = Inl err
          \<and> attempts (sendMessageWithRetry send rnd) = Suc k
          \<and> length (delays (sendMessageWithRetry send rnd)) = k"
  proof (intro allI impI)
    fix k :: nat
    assume k: "k < 7" and h: "(\<forall>j<k. retriable_failure (send j)) \<and> send k = Inl err"
    then have "sendMessageWithRetry send rnd =
         \<lparr>outcome = Inl err, attempts = Suc k, delays = map (backoff rnd) [0..<k]\<rparr>"
      using q by (intro retry_quota_at) simp_all
    then show "outcome (sendMessageWithRetry send rnd) = Inl err
          \<and> attempts (sendMessageWithRetry send rnd) = Suc k
          \<and> length (delays (sendMessageWithRetry send rnd)) = k"
      by simp
  qed
  from first later show ?thesis by blast
qed

lemma api_quota_error_class:
  "\<not> isQuotaError api_quota_error" "isRetriableError api_quota_error"
  by (simp_all add: api_quota_error_def isQuotaError_def isRetriableError_def errorString_def
      toLowerCase_def toLowerCase_char_def)

lemma api_quota_error_message:
  "includes_str (toLowerCase (message api_quota_error)) ''quota exceeded''"
  "includes_str (toLowerCase (message api_quota_error)) ''daily limit''"
  by (simp_all add: api_quota_error_def toLowerCase_def toLowerCase_char_def)

section \<open>Facts about the conversion loop\<close>

lemma loop_done:
  assumes "\<not> i < numChunks P"
  shows "convert_loop E key P i chat images n tr = \<lparr>ended = Inr (chat, images), calls = n, trace = tr\<rparr>"
  using assms by (simp add: convert_loop.simps [of E key P i chat images n tr])

lemma loop_fail:
  assumes "i < numChunks P" "outcome (send_chunk E P i chat images n) = Inl err"
  shows "convert_loop E key P i chat images n tr =
      \<lparr>ended = Inl err, calls = n + attempts (send_chunk E P i chat images n),
       trace = tr @ [SetItem key \<lparr>currentChunk = i, numPages = P, chatHistory = chat,
                        allImages = snd (snd (extract_chunk E P i images))\<rparr>,
                     SendChunk chat (fst (extract_chunk E P i images))
                       (fst (snd (extract_chunk E P i images))) (startPage i) (endPage P i)]\<rparr>"
proof -
  obtain t ci im where "extract_chunk E P i images = (t, ci, im)"
    by (cases "extract_chunk E P i images")
  with assms show ?thesis
    by (simp add: convert_loop.simps [of E key P i chat images n tr] send_chunk_def Let_def)
qed

lemma loop_ok:
  assumes "i < numChunks P" "outcome (send_chunk E P i chat images n) = Inr resp"
  shows "convert_loop E key P i chat images n tr =
      convert_loop E key P (i + 1) (history_after resp) (snd (snd (extract_chunk E P i images)))
        (n + attempts (send_chunk E P i chat images n))
        (tr @ [SetItem key \<lparr>currentChunk = i, numPages = P, chatHistory = chat,
                        allImages = snd (snd (extract_chunk E P i images))\<rparr>,
               SendChunk chat (fst (extract_chunk E P i images))
                       (fst (snd (extract_chunk E P i images))) (startPage i) (endPage P i),
               SetItem key \<lparr>currentChunk = i + 1, numPages = P, chatHistory = history_after resp,
                        allImages = snd (snd (extract_chunk E P i images))\<rparr>,
               Sleep THROTTLE_MS])"
proof -
  obtain t ci im where "extract_chunk E P i images = (t, ci, im)"
    by (cases "extract_chunk E P i images")
  with assms show ?thesis
    by (simp add: convert_loop.simps [of E key P i chat images n tr] send_chunk_def Let_def)
qed

lemma loop_trace_append:
  "trace (convert_loop E key P i chat images n tr) = tr @ trace (convert_loop E key P i chat images n [])"
proof (induction "numChunks P - i" arbitrary: i chat images n tr)
  case 0
  then have "\<not> i < numChunks P" by simp
  then show ?case by (simp add: loop_done)
next
  case (Suc d)
  then have lt: "i < numChunks P" and d: "d = numChunks P - (i + 1)" by simp_all
  show ?case
  proof (cases "outcome (send_chunk E P i chat images n)")
    case (Inl err)
    then show ?thesis using lt by (simp add: loop_fail)
  next
    case (Inr resp)
    have ih: "trace (convert_loop E key P (Suc i) c im m t) =
        t @ trace (convert_loop E key P (Suc i) c im m [])" for c im m t
      by (rule Suc.hyps(1)) (use d in simp)
    show ?thesis
      by (simp only: loop_ok [OF lt Inr] Suc_eq_plus1 [symmetric])
         (simp only: ih [of _ _ _ "_ @ _"] ih [of _ _ _ "[_, _, _, _]"] append_assoc append_Nil)
  qed
qed

lemma loop_ended_calls:
  "ended (convert_loop E key P i chat images n tr) = ended (convert_loop E key P i chat images n [])"
proof (induction "numChunks P - i" arbitrary: i chat images n tr)
  case 0
  then have "\<not> i < numChunks P" by simp
  then show ?case by (simp add: loop_done)
next
  case (Suc d)
  then have lt: "i < numChunks P" and d: "d = numChunks P - (i + 1)" by simp_all
  show ?case
  proof (cases "outcome (send_chunk E P i chat images n)")
    case (Inl err)
    then show ?thesis using lt by (simp add: loop_fail)
  next
    case (Inr resp)
    have ih: "ended (convert_loop E key P (Suc i) c im m t) =
        ended (convert_loop E key P (Suc i) c im m [])" for c im m t
      by (rule Suc.hyps(1)) (use d in simp)
    show ?thesis
      by (simp only: loop_ok [OF lt Inr] Suc_eq_plus1 [symmetric])
         (rule trans [OF ih ih [symmetric]])
  qed
qed

lemma marks_append: "marks (a @ b) = marks a @ marks b"
  by (simp add: marks_def)

lemma submissions_append: "submissions (a @ b) = submissions a @ submissions b"
  by (simp add: submissions_def)

lemma loop_ok_trace:
  assumes "i < numChunks P" "outcome (send_chunk E P i chat images n) = Inr resp"
  shows "trace (convert_loop E key P i chat images n []) =
        [SetItem key \<lparr>currentChunk = i, numPages = P, chatHistory = chat,
                        allImages = snd (snd (extract_chunk E P i images))\<rparr>,
         SendChunk chat (fst (extract_chunk E P i images))
                       (fst (snd (extract_chunk E P i images))) (startPage i) (endPage P i),
         SetItem key \<lparr>currentChunk = i + 1, numPages = P, chatHistory = history_after resp,
                        allImages = snd (snd (extract_chunk E P i images))\<rparr>,
         Sleep THROTTLE_MS]
        @ trace (convert_loop E key P (Suc i) (history_after resp)
            (snd (snd (extract_chunk E P i images)))
            (n + attempts (send_chunk E P i chat images n)) [])"
  by (simp only: loop_ok [OF assms] Suc_eq_plus1 [symmetric] append_Nil)
     (rule loop_trace_append)

lemma loop_ok_ended:
  assumes "i < numChunks P" "outcome (send_chunk E P i chat images n) = Inr resp"
  shows "ended (convert_loop E key P i chat images n []) =
         ended (convert_loop E key P (Suc i) (history_after resp)
            (snd (snd (extract_chunk E P i images)))
            (n + attempts (send_chunk E P i chat images n)) [])"
  by (simp only: loop_ok [OF assms] Suc_eq_plus1 [symmetric] append_Nil)
     (rule loop_ended_calls)

lemma loop_discipline:
  "snapshot_discipline P i (marks (trace (convert_loop E key P i chat images n [])))"
proof (induction "numChunks P - i" arbitrary: i chat images n)
  case 0
  then have "\<not> i < numChunks P" by simp
  then show ?case by (simp add: loop_done marks_def)
next
  case (Suc d)
  then have lt: "i < numChunks P" and d: "d = numChunks P - Suc i" by simp_all
  show ?case
  proof (cases "outcome (send_chunk E P i chat images n)")
    case (Inl err)
    then show ?thesis using lt by (simp add: loop_fail marks_def)
  next
    case (Inr resp)
    have "snapshot_discipline P (Suc i) (marks (trace (convert_loop E key P (Suc i)
        (history_after resp) (snd (snd (extract_chunk E P i images)))
        (n + attempts (send_chunk E P i chat images n)) [])))"
      by (rule Suc.hyps(1)) (use d in simp)
    then show ?thesis
      by (simp add: loop_ok_trace [OF lt Inr] marks_append) (simp add: marks_def)
  qed
qed

lemma loop_complete_marks:
  assumes "ended (convert_loop E key P i chat images n []) = Inr fin"
  shows "marks (trace (convert_loop E key P i chat images n [])) =
         concat (map (chunk_marks P) [i..<numChunks P])"
  using assms
proof (induction "numChunks P - i" arbitrary: i chat images n)
  case 0
  then have "\<not> i < numChunks P" by simp
  then show ?case by (simp add: loop_done marks_def)
next
  case (Suc d)
  then have lt: "i < numChunks P" and d: "d = numChunks P - Suc i" by simp_all
  show ?case
  proof (cases "outcome (send_chunk E P i chat images n)")
    case (Inl err)
    then show ?thesis using lt Suc.prems by (simp add: loop_fail)
  next
    case (Inr resp)
    have e: "ended (convert_loop E key P (Suc i) (history_after resp)
        (snd (snd (extract_chunk E P i images)))
        (n + attempts (send_chunk E P i chat images n)) []) = Inr fin"
      using Suc.prems by (simp only: loop_ok_ended [OF lt Inr])
    have "marks (trace (convert_loop E key P (Suc i) (history_after resp)
        (snd (snd (extract_chunk E P i images)))
        (n + attempts (send_chunk E P i chat images n)) [])) =
        concat (map (chunk_marks P) [Suc i..<numChunks P])"
      by (rule Suc.hyps(1)) (use d e in simp_all)
    then show ?thesis
      using lt
      by (simp add: loop_ok_trace [OF lt Inr] marks_append upt_conv_Cons)
         (simp add: marks_def chunk_marks_def)
  qed
qed

lemma loop_submissions_prefix:
  "prefix (submissions (trace (convert_loop E key P i chat images n [])))
     (map (chunk_range P) [i..<numChunks P])"
proof (induction "numChunks P - i" arbitrary: i chat images n)
  case 0
  then have "\<not> i < numChunks P" by simp
  then show ?case by (simp add: loop_done submissions_def)
next
  case (Suc d)
  then have lt: "i < numChunks P" and d: "d = numChunks P - Suc i" by simp_all
  show ?case
  proof (cases "outcome (send_chunk E P i chat images n)")
    case (Inl err)
    then show ?thesis using lt
      by (simp add: loop_fail submissions_def upt_conv_Cons chunk_range_def)
  next
    case (Inr resp)
    have "prefix (submissions (trace (convert_loop E key P (Suc i) (history_after resp)
        (snd (snd (extract_chunk E P i images)))
        (n + attempts (send_chunk E P i chat images n)) [])))
        (map (chunk_range P) [Suc i..<numChunks P])"
      by (rule Suc.hyps(1)) (use d in simp)
    then show ?thesis
      using lt
      by (simp add: loop_ok_trace [OF lt Inr] submissions_append upt_conv_Cons)
         (simp add: submissions_def chunk_range_def)
  qed
qed

lemma loop_complete_submissions:
  assumes "ended (convert_loop E key P i chat images n []) = Inr fin"
  shows "submissions (trace (convert_loop E key P i chat images n [])) =
         map (chunk_range P) [i..<numChunks P]"
  using assms
proof (induction "numChunks P - i" arbitrary: i chat images n)
  case 0
  then have "\<not> i < numChunks P" by simp
  then show ?case by (simp add: loop_done submissions_def)
next
  case (Suc d)
  then have lt: "i < numChunks P" and d: "d = numChunks P - Suc i" by simp_all
  show ?case
  proof (cases "outcome (send_chunk E P i chat images n)")
    case (Inl err)
    then show ?thesis using lt Suc.prems by (simp add: loop_fail)
  next
    case (Inr resp)
    have e: "ended (convert_loop E key P (Suc i) (history_after resp)
        (snd (snd (extract_chunk E P i images)))
        (n + attempts (send_chunk E P i chat images n)) []) = Inr fin"
      using Suc.prems by (simp only: loop_ok_ended [OF lt Inr])
    have "submissions (trace (convert_loop E key P (Suc i) (history_after resp)
        (snd (snd (extract_chunk E P i images)))
        (n + attempts (send_chunk E P i chat images n)) [])) =
        map (chunk_range P) [Suc i..<numChunks P]"
      by (rule Suc.hyps(1)) (use d e in simp_all)
    then show ?thesis
      using lt
      by (simp add: loop_ok_trace [OF lt Inr] submissions_append upt_conv_Cons)
         (simp add: submissions_def chunk_range_def)
  qed
qed

lemma loop_sent_texts:
  assumes "SendChunk h body ims s e \<in> set (trace (convert_loop E key P i chat images n []))"
  shows "\<exists>j before. i \<le> j \<and> j < numChunks P \<and> s = startPage j \<and> e = endPage P j
           \<and> body = fst (extract_chunk E P j before)
           \<and> ims = fst (snd (extract_chunk E P j before))"
  using assms
proof (induction "numChunks P - i" arbitrary: i chat images n)
  case 0
  then have "\<not> i < numChunks P" by simp
  with 0 show ?case by (simp add: loop_done)
next
  case (Suc d)
  then have lt: "i < numChunks P" and d: "d = numChunks P - Suc i" by simp_all
  show ?case
  proof (cases "outcome (send_chunk E P i chat images n)")
    case (Inl err)
    with Suc.prems lt show ?thesis
      by (auto simp: loop_fail)
  next
    case (Inr resp)
    from Suc.prems have "SendChunk h body ims s e =
          SendChunk chat (fst (extract_chunk E P i images))
                       (fst (snd (extract_chunk E P i images))) (startPage i) (endPage P i)
      \<or> SendChunk h body ims s e \<in> set (trace (convert_loop E key P (Suc i) (history_after resp)
            (snd (snd (extract_chunk E P i images)))
            (n + attempts (send_chunk E P i chat images n)) []))"
      by (simp add: loop_ok_trace [OF lt Inr])
    then show ?thesis
    proof
      assume "SendChunk h body ims s e =
          SendChunk chat (fst (extract_chunk E P i images))
                       (fst (snd (extract_chunk E P i images))) (startPage i) (endPage P i)"
      then have "i \<le> i \<and> i < numChunks P \<and> s = startPage i \<and> e = endPage P i
           \<and> body = fst (extract_chunk E P i images)
           \<and> ims = fst (snd (extract_chunk E P i images))"
        using lt by simp
      then show ?thesis by blast
    next
      assume m: "SendChunk h body ims s e \<in> set (trace (convert_loop E key P (Suc i)
            (history_after resp) (snd (snd (extract_chunk E P i images)))
            (n + attempts (send_chunk E P i chat images n)) []))"
      have "\<exists>j before. Suc i \<le> j \<and> j < numChunks P \<and> s = startPage j \<and> e = endPage P j
           \<and> body = fst (extract_chunk E P j before)
           \<and> ims = fst (snd (extract_chunk E P j before))"
        by (rule Suc.hyps(1) [OF _ m]) (use d in simp)
      then obtain j before where "Suc i \<le> j" "j < numChunks P" "s = startPage j"
        "e = endPage P j" "body = fst (extract_chunk E P j before)"
        "ims = fst (snd (extract_chunk E P j before))"
        by blast
      then have "i \<le> j \<and> j < numChunks P \<and> s = startPage j \<and> e = endPage P j
           \<and> body = fst (extract_chunk E P j before)
           \<and> ims = fst (snd (extract_chunk E P j before))"
        by simp
      then show ?thesis by blast
    qed
  qed
qed

lemma loop_first_events:
  assumes "i < numChunks P"
  shows "take 2 (trace (convert_loop E key P i chat images n [])) =
        [SetItem key \<lparr>currentChunk = i, numPages = P, chatHistory = chat,
                        allImages = snd (snd (extract_chunk E P i images))\<rparr>,
         SendChunk chat (fst (extract_chunk E P i images))
                       (fst (snd (extract_chunk E P i images))) (startPage i) (endPage P i)]"
proof (cases "outcome (send_chunk E P i chat images n)")
  case (Inl err)
  then show ?thesis using assms by (simp add: loop_fail)
next
  case (Inr resp)
  then show ?thesis using assms by (simp add: loop_ok_trace)
qed

lemma extract_image_extends:
  "\<exists>new. snd (snd (extract_image E operator st)) = snd (snd st) @ new"
  by (cases st; cases operator)
     (auto simp: extract_image_def Let_def split: option.splits sum.splits)

lemma foldl_extract_image_extends:
  "\<exists>new. snd (snd (foldl (\<lambda>s operator. extract_image E operator s) st operators))
           = snd (snd st) @ new"
proof (induction operators arbitrary: st)
  case Nil
  then show ?case by simp
next
  case (Cons operator operators)
  obtain a where a: "snd (snd (extract_image E operator st)) = snd (snd st) @ a"
    using extract_image_extends by blast
  obtain b where "snd (snd (foldl (\<lambda>s operator. extract_image E operator s)
      (extract_image E operator st) operators)) = snd (snd (extract_image E operator st)) @ b"
    using Cons.IH by blast
  with a show ?case by simp
qed

lemma extract_page_extends:
  "\<exists>new. snd (snd (extract_page E pageNum st)) = snd (snd st) @ new"
proof (cases st)
  case (fields t c im)
  then show ?thesis
    using foldl_extract_image_extends [of E _ "ops (getPage E pageNum)"]
    by (simp add: extract_page_def Let_def) (metis snd_conv)
qed

lemma foldl_extract_page_extends:
  "\<exists>new. snd (snd (foldl (\<lambda>s pageNum. extract_page E pageNum s) st pages)) = snd (snd st) @ new"
proof (induction pages arbitrary: st)
  case Nil
  then show ?case by simp
next
  case (Cons pageNum pages)
  obtain a where a: "snd (snd (extract_page E pageNum st)) = snd (snd st) @ a"
    using extract_page_extends by blast
  obtain b where "snd (snd (foldl (\<lambda>s pageNum. extract_page E pageNum s)
      (extract_page E pageNum st) pages)) = snd (snd (extract_page E pageNum st)) @ b"
    using Cons.IH by blast
  with a show ?case by simp
qed

lemma extract_chunk_extends:
  "prefix images (snd (snd (extract_chunk E P i images)))"
  using foldl_extract_page_extends [of E "([], [], images)" "chunk_pages P i"]
  by (auto simp: extract_chunk_def prefix_def)

lemma handleConvert_resumed:
  assumes "\<not> forceNew" "isRetriable \<or> confirmed"
  shows "\<exists>extra. trace (handleConvert E f (Some session) forceNew isRetriable confirmed) =
           trace (convert_loop E (sessionKey f) (pdf_numPages E) (currentChunk session)
                    (chatHistory session) (allImages session) 0 []) @ extra
         \<and> submissions extra = []
         \<and> (\<forall>h body ims s e. SendChunk h body ims s e \<notin> set extra)
         \<and> (\<forall>a. ended (handleConvert E f (Some session) forceNew isRetriable confirmed) = Inr a
              \<longrightarrow> (\<exists>fin. ended (convert_loop E (sessionKey f) (pdf_numPages E)
                    (currentChunk session) (chatHistory session) (allImages session) 0 [])
                       = Inr fin))"
proof (cases "ended (convert_loop E (sessionKey f) (pdf_numPages E) (currentChunk session)
                    (chatHistory session) (allImages session) 0 [])")
  case (Inl err)
  with assms show ?thesis
    by (auto simp: handleConvert_def startEpubConversionChat_def Let_def submissions_def)
next
  case (Inr fin)
  obtain chat images where fin: "fin = (chat, images)" by (cases fin)
  show ?thesis
  proof (cases "outcome (finishEpubConversionChat
      (\<lambda>m k. sendMessage E (calls (convert_loop E (sessionKey f) (pdf_numPages E)
           (currentChunk session) (chatHistory session) (allImages session) 0 []) + k) chat m)
      (\<lambda>k. random E (calls (convert_loop E (sessionKey f) (pdf_numPages E)
           (currentChunk session) (chatHistory session) (allImages session) 0 []) + k))
      (JSON_parse E) (FINAL_PROMPT_INSTRUCTIONS E))")
    case (Inl err)
    with assms Inr fin show ?thesis
      by (auto simp: handleConvert_def startEpubConversionChat_def Let_def submissions_def)
  next
    case inner: (Inr html)
    with assms Inr fin show ?thesis
      by (cases "generateEpub (jszip E) (innerHTML E) (parseFromString E html)
                   (strip_pdf (file_name f))")
         (auto simp: handleConvert_def startEpubConversionChat_def Let_def submissions_def)
  qed
qed

lemma send_chunk_first_try:
  assumes "sendMessage E n chat
      (chunk_message (fst (extract_chunk E P i images)) (fst (snd (extract_chunk E P i images)))
         (startPage i) (endPage P i)) = Inr resp"
  shows "outcome (send_chunk E P i chat images n) = Inr resp"
proof -
  have "sendMessageWithRetry (\<lambda>k. sendMessage E (n + k) chat
      (chunk_message (fst (extract_chunk E P i images)) (fst (snd (extract_chunk E P i images)))
         (startPage i) (endPage P i))) (\<lambda>k. random E (n + k)) =
      \<lparr>outcome = Inr resp, attempts = Suc 0, delays = map (backoff (\<lambda>k. random E (n + k))) [0..<0]\<rparr>"
    by (rule retry_success_at) (use assms in simp_all)
  then show ?thesis
    by (simp add: send_chunk_def sendPdfChunkToChat_def)
qed

lemma loop_all_success:
  assumes "\<forall>n h m. \<exists>resp. sendMessage E n h m = Inr resp"
  shows "\<exists>fin. ended (convert_loop E key P i chat images n []) = Inr fin"
proof (induction "numChunks P - i" arbitrary: i chat images n)
  case 0
  then have "\<not> i < numChunks P" by simp
  then show ?case by (simp add: loop_done)
next
  case (Suc d)
  then have lt: "i < numChunks P" and d: "d = numChunks P - Suc i" by simp_all
  obtain resp where "sendMessage E n chat
      (chunk_message (fst (extract_chunk E P i images)) (fst (snd (extract_chunk E P i images)))
         (startPage i) (endPage P i)) = Inr resp"
    using assms by blast
  then have ok: "outcome (send_chunk E P i chat images n) = Inr resp"
    by (rule send_chunk_first_try)
  have "\<exists>fin. ended (convert_loop E key P (Suc i) (history_after resp)
            (snd (snd (extract_chunk E P i images)))
            (n + attempts (send_chunk E P i chat images n)) []) = Inr fin"
    by (rule Suc.hyps(1)) (use d in simp)
  then show ?case
    by (simp only: loop_ok_ended [OF lt ok])
qed

lemma finish_first_try:
  assumes "send (final_message instructions) 0 = Inr resp" "text_of resp = Some t"
    "parse (cleaned_text t) = Inr (JObject kvs)" "map_of kvs ''htmlContent'' = Some v"
    "truthy (Some v)"
  shows "outcome (finishEpubConversionChat send rnd parse instructions) = Inr v"
proof -
  have "sendMessageWithRetry (send (final_message instructions)) rnd =
      \<lparr>outcome = Inr resp, attempts = Suc 0, delays = map (backoff rnd) [0..<0]\<rparr>"
    by (rule retry_success_at) (use assms in simp_all)
  moreover have "read_htmlContent parse (Some t) = Inr v"
    using assms(3-5) by (rule read_htmlContent_present)
  ultimately show ?thesis
    using assms(2) by (simp add: finishEpubConversionChat_def)
qed

lemma handleConvert_completes:
  assumes "answering E t v"
  shows "\<exists>a. ended (handleConvert E f resumable forceNew isRetriable confirmed) = Inr a"
proof -
  have all: "\<forall>n h m. \<exists>resp. sendMessage E n h m = Inr resp"
    using assms unfolding answering_def by metis
  have fin: "outcome (finishEpubConversionChat (\<lambda>m k. sendMessage E (c + k) chat m) rnd
      (JSON_parse E) instructions) = Inr v" for c chat rnd instructions
  proof -
    obtain hist where "sendMessage E (c + 0) chat (final_message instructions)
        = Inr \<lparr>text_of = Some t, history_after = hist\<rparr>"
      using assms unfolding answering_def by blast
    then show ?thesis
      using assms unfolding answering_def
      by (intro finish_first_try [where t = t and kvs = "[(''htmlContent'', v)]"
            and resp = "\<lparr>text_of = Some t, history_after = hist\<rparr>"]) simp_all
  qed
  have loop: "\<exists>fin. ended (convert_loop E key P i chat images n tr) = Inr fin"
    for key P i chat images n tr
    using loop_all_success [OF all] loop_ended_calls by metis
  have noInl: "ended (convert_loop E key P i chat images n tr) \<noteq> Inl err"
    for key P i chat images n tr err
    using loop [of key P i chat images n tr] by auto
  have pack: "generateEpub (jszip E) (innerHTML E) (parseFromString E v) title \<noteq> Inl err"
    for title err
    using assms unfolding answering_def by (metis sum.distinct(1))
  show ?thesis
    by (cases resumable)
       (auto simp: handleConvert_def Let_def fin noInl pack split: sum.splits prod.splits)
qed

lemma answering_quiet: "answering quiet_env html_answer (JString ''<p/>'')"
  by (simp add: answering_def quiet_env_def html_answer_def cleaned_text_def trim_def
      is_space_def strip_fence_open_def strip_fence_close_def fence_def
      generateEpub_def process_images_def decodable_entry_def Let_def)

lemma loop_failed_marks:
  assumes "ended (convert_loop E key P i chat images n []) = Inl err"
  shows "\<exists>k. i \<le> k \<and> k < numChunks P
           \<and> marks (trace (convert_loop E key P i chat images n [])) =
               concat (map (chunk_marks P) [i..<k]) @ [Snap k, Sub (startPage k) (endPage P k)]"
  using assms
proof (induction "numChunks P - i" arbitrary: i chat images n)
  case 0
  then have "\<not> i < numChunks P" by simp
  with "0.prems" show ?case by (simp add: loop_done)
next
  case (Suc d)
  then have lt: "i < numChunks P" and d: "d = numChunks P - Suc i" by simp_all
  show ?case
  proof (cases "outcome (send_chunk E P i chat images n)")
    case (Inl e)
    have "marks (trace (convert_loop E key P i chat images n [])) =
        concat (map (chunk_marks P) [i..<i]) @ [Snap i, Sub (startPage i) (endPage P i)]"
      using lt Inl by (simp add: loop_fail marks_def)
    with lt show ?thesis by blast
  next
    case (Inr resp)
    have e: "ended (convert_loop E key P (Suc i) (history_after resp)
        (snd (snd (extract_chunk E P i images)))
        (n + attempts (send_chunk E P i chat images n)) []) = Inl err"
      using Suc.prems by (simp only: loop_ok_ended [OF lt Inr])
    have "\<exists>k. Suc i \<le> k \<and> k < numChunks P
           \<and> marks (trace (convert_loop E key P (Suc i) (history_after resp)
                (snd (snd (extract_chunk E P i images)))
                (n + attempts (send_chunk E P i chat images n)) [])) =
               concat (map (chunk_marks P) [Suc i..<k]) @ [Snap k, Sub (startPage k) (endPage P k)]"
      by (rule Suc.hyps(1)) (use d e in simp_all)
    then obtain k where k: "Suc i \<le> k" "k < numChunks P"
      and m: "marks (trace (convert_loop E key P (Suc i) (history_after resp)
                (snd (snd (extract_chunk E P i images)))
                (n + attempts (send_chunk E P i chat images n)) [])) =
               concat (map (chunk_marks P) [Suc i..<k]) @ [Snap k, Sub (startPage k) (endPage P k)]"
      by blast
    have here: "marks (trace (convert_loop E key P i chat images n [])) =
        chunk_marks P i @ marks (trace (convert_loop E key P (Suc i) (history_after resp)
                (snd (snd (extract_chunk E P i images)))
                (n + attempts (send_chunk E P i chat images n)) []))"
      by (simp add: loop_ok_trace [OF lt Inr] marks_append) (simp add: marks_def chunk_marks_def)
    have "i < k" using k by simp
    then have "[i..<k] = i # [Suc i..<k]" by (simp add: upt_conv_Cons)
    then have "marks (trace (convert_loop E key P i chat images n [])) =
        concat (map (chunk_marks P) [i..<k]) @ [Snap k, Sub (startPage k) (endPage P k)]"
      by (simp add: here m)
    with k show ?thesis by (meson Suc_leD)
  qed
qed

lemma send_chunk_rejected:
  assumes "sendMessage E n chat
      (chunk_message (fst (extract_chunk E P i images)) (fst (snd (extract_chunk E P i images)))
         (startPage i) (endPage P i)) = Inl err"
    and "\<not> isQuotaError err" "\<not> isRetriableError err"
  shows "outcome (send_chunk E P i chat images n) = Inl err"
proof -
  have "sendMessageWithRetry (\<lambda>k. sendMessage E (n + k) chat
      (chunk_message (fst (extract_chunk E P i images)) (fst (snd (extract_chunk E P i images)))
         (startPage i) (endPage P i))) (\<lambda>k. random E (n + k)) =
      \<lparr>outcome = Inl err, attempts = Suc 0, delays = []\<rparr>"
    unfolding sendMessageWithRetry_def
    by (rule retry_stop_other) (use assms in simp_all)
  then show ?thesis
    by (simp add: send_chunk_def sendPdfChunkToChat_def)
qed

lemma bad_request_class: "\<not> isQuotaError bad_request" "\<not> isRetriableError bad_request"
  by (simp_all add: bad_request_def isQuotaError_def isRetriableError_def errorString_def
      toLowerCase_def toLowerCase_char_def)

section \<open>Facts about the image normalization\<close>

lemma gray_loop_length: "length (gray_loop d l k out) = length out"
proof (induction d l k out rule: gray_loop.induct)
  case (1 d l k out)
  then show ?case by (simp add: gray_loop.simps [of d l k out])
qed

lemma rgb_loop_length: "length (rgb_loop d l k out) = length out"
proof (induction d l k out rule: rgb_loop.induct)
  case (1 d l k out)
  then show ?case by (simp add: rgb_loop.simps [of d l k out])
qed

lemma gray_loop_nth:
  assumes "k = 4 * l" "c < 4" "4 * p + c < length out"
  shows "gray_loop d l k out ! (4 * p + c) =
     (if l \<le> p \<and> p < length d then (if c = 3 then 255 else d ! p) else out ! (4 * p + c))"
  using assms
proof (induction d l k out rule: gray_loop.induct)
  case (1 d l k out)
  show ?case
  proof (cases "l < length d")
    case False
    then have stop: "gray_loop d l k out = out"
      by (simp add: gray_loop.simps [of d l k out])
    from False have "\<not> (l \<le> p \<and> p < length d)" by simp
    then show ?thesis unfolding stop by auto
  next
    case True
    let ?out = "out[k := rd d l, k + 1 := rd d l, k + 2 := rd d l, k + 3 := 255]"
    have ih: "gray_loop d (l + 1) (k + 4) ?out ! (4 * p + c) =
       (if l + 1 \<le> p \<and> p < length d then (if c = 3 then 255 else d ! p) else ?out ! (4 * p + c))"
      using "1.IH" [OF True] "1.prems" by simp
    have step: "gray_loop d l k out = gray_loop d (l + 1) (k + 4) ?out"
      using True by (simp add: gray_loop.simps [of d l k out])
    show ?thesis
    proof (cases "p = l")
      case True
      have "?out ! (4 * p + c) = (if c = 3 then 255 else d ! p)"
      proof -
        from "1.prems" consider "c = 0" | "c = 1" | "c = 2" | "c = 3" by linarith
        then show ?thesis
          using True \<open>l < length d\<close> "1.prems"
          by cases (simp_all add: rd_def nth_list_update)
      qed
      with True \<open>l < length d\<close> show ?thesis unfolding step ih by simp
    next
      case False
      with "1.prems" have "?out ! (4 * p + c) = out ! (4 * p + c)"
        by (auto simp: nth_list_update)
      with False show ?thesis unfolding step ih by auto
    qed
  qed
qed

lemma rgb_loop_nth:
  assumes "l = 3 * q" "k = 4 * q" "c < 4" "4 * p + c < length out"
  shows "rgb_loop d l k out ! (4 * p + c) =
     (if q \<le> p \<and> 3 * p < length d then (if c = 3 then 255 else rd d (3 * p + c))
      else out ! (4 * p + c))"
  using assms
proof (induction d l k out arbitrary: q rule: rgb_loop.induct)
  case (1 d l k out)
  show ?case
  proof (cases "l < length d")
    case False
    then have stop: "rgb_loop d l k out = out"
      by (simp add: rgb_loop.simps [of d l k out])
    from False "1.prems" have "\<not> (q \<le> p \<and> 3 * p < length d)" by simp
    then show ?thesis unfolding stop by auto
  next
    case True
    let ?out = "out[k := rd d l, k + 1 := rd d (l + 1), k + 2 := rd d (l + 2), k + 3 := 255]"
    have ih: "rgb_loop d (l + 3) (k + 4) ?out ! (4 * p + c) =
       (if Suc q \<le> p \<and> 3 * p < length d then (if c = 3 then 255 else rd d (3 * p + c))
        else ?out ! (4 * p + c))"
      using "1.IH" [OF True, of "Suc q"] "1.prems" by simp
    have step: "rgb_loop d l k out = rgb_loop d (l + 3) (k + 4) ?out"
      using True by (simp add: rgb_loop.simps [of d l k out])
    show ?thesis
    proof (cases "p = q")
      case True
      with \<open>l < length d\<close> "1.prems" have "?out ! (4 * p + c) = (if c = 3 then 255 else rd d (3 * p + c))"
      proof -
        from "1.prems" consider "c = 0" | "c = 1" | "c = 2" | "c = 3" by linarith
        then show ?thesis
          using True \<open>l < length d\<close> "1.prems"
          by cases (simp_all add: nth_list_update)
      qed
      with True \<open>l < length d\<close> "1.prems" show ?thesis unfolding step ih by simp
    next
      case False
      with "1.prems" have "?out ! (4 * p + c) = out ! (4 * p + c)"
        by (auto simp: nth_list_update)
      with False show ?thesis unfolding step ih by auto
    qed
  qed
qed

lemma normalize_rgb:
  assumes "0 < width img" "0 < height img" "length (pixels img) = width img * height img * 3"
  shows "normalize_image img = Inr (rgb_loop (pixels img) 0 0 (replicate (width img * height img * 4) 0))"
  using assms by (simp add: normalize_image_def createImageData_def)

lemma normalize_rgba:
  assumes "0 < width img" "0 < height img" "length (pixels img) = width img * height img * 4"
  shows "normalize_image img = Inr (pixels img)"
  using assms by (simp add: normalize_image_def createImageData_def typed_set_def)

lemma normalize_gray:
  assumes "0 < width img" "0 < height img" "length (pixels img) \<noteq> width img * height img * 3"
    "length (pixels img) \<noteq> width img * height img * 4"
  shows "normalize_image img = Inr (gray_loop (pixels img) 0 0 (replicate (width img * height img * 4) 0))"
  using assms by (simp add: normalize_image_def createImageData_def)

lemma rgb_pixel:
  assumes "length d = n * 3" "p < n" "c < 4"
  shows "rgb_loop d 0 0 (replicate (n * 4) 0) ! (4 * p + c) = (if c = 3 then 255 else d ! (3 * p + c))"
proof -
  have "rgb_loop d 0 0 (replicate (n * 4) 0) ! (4 * p + c) =
     (if 0 \<le> p \<and> 3 * p < length d then (if c = 3 then 255 else rd d (3 * p + c))
      else replicate (n * 4) 0 ! (4 * p + c))"
    using assms by (intro rgb_loop_nth [where q = 0]) simp_all
  moreover have "3 * p < length d" using assms by simp
  moreover have "c \<noteq> 3 \<longrightarrow> rd d (3 * p + c) = d ! (3 * p + c)"
    using assms by (simp add: rd_def)
  ultimately show ?thesis by simp
qed

lemma gray_pixel:
  assumes "p < n" "c < 4"
  shows "gray_loop d 0 0 (replicate (n * 4) 0) ! (4 * p + c) =
     (if p < length d then (if c = 3 then 255 else d ! p) else 0)"
proof -
  have "gray_loop d 0 0 (replicate (n * 4) 0) ! (4 * p + c) =
     (if 0 \<le> p \<and> p < length d then (if c = 3 then 255 else d ! p)
      else replicate (n * 4) 0 ! (4 * p + c))"
    using assms by (intro gray_loop_nth) simp_all
  then show ?thesis using assms by simp
qed

lemma normalize_paths:
  assumes pos: "0 < width img" "0 < height img" and n: "n = width img * height img"
  shows "(\<exists>buf. normalize_image img = Inr buf \<and> length buf = n * 4
         \<and> (length (pixels img) = n * 3 \<longrightarrow>
              (\<forall>p<n.
                 buf ! (4 * p) = pixels img ! (3 * p) \<and> buf ! (4 * p + 1) = pixels img ! (3 * p + 1)
                 \<and> buf ! (4 * p + 2) = pixels img ! (3 * p + 2) \<and> buf ! (4 * p + 3) = 255))
         \<and> (length (pixels img) = n * 4 \<longrightarrow> buf = pixels img)
         \<and> (length (pixels img) \<noteq> n * 3
              \<and> length (pixels img) \<noteq> n * 4 \<longrightarrow>
              (\<forall>p<n.
                 if p < length (pixels img)
                 then buf ! (4 * p) = pixels img ! p \<and> buf ! (4 * p + 1) = pixels img ! p
                      \<and> buf ! (4 * p + 2) = pixels img ! p \<and> buf ! (4 * p + 3) = 255
                 else buf ! (4 * p) = 0 \<and> buf ! (4 * p + 1) = 0
                      \<and> buf ! (4 * p + 2) = 0 \<and> buf ! (4 * p + 3) = 0)))"
proof -
  have npos: "0 < n" using pos n by simp
  consider (rgb) "length (pixels img) = n * 3"
    | (rgba) "length (pixels img) = n * 4"
    | (gray) "length (pixels img) \<noteq> n * 3" "length (pixels img) \<noteq> n * 4"
    by blast
  then show ?thesis
  proof cases
    case rgb
    have norm: "normalize_image img = Inr (rgb_loop (pixels img) 0 0 (replicate (n * 4) 0))"
      using pos rgb unfolding n by (intro normalize_rgb) simp_all
    have px: "rgb_loop (pixels img) 0 0 (replicate (n * 4) 0) ! (4 * p + c)
        = (if c = 3 then 255 else pixels img ! (3 * p + c))" if "p < n" "c < 4" for p c
      using rgb that by (rule rgb_pixel)
    have not4: "length (pixels img) \<noteq> n * 4" using rgb npos by simp
    show ?thesis
      using rgb not4 px [of _ 0] px [of _ 1] px [of _ 2] px [of _ 3]
      by (simp add: norm rgb_loop_length)
  next
    case rgba
    have norm: "normalize_image img = Inr (pixels img)"
      using pos rgba unfolding n by (intro normalize_rgba) simp_all
    have not3: "length (pixels img) \<noteq> n * 3" using rgba npos by simp
    show ?thesis using rgba not3 by (simp add: norm)
  next
    case gray
    have norm: "normalize_image img = Inr (gray_loop (pixels img) 0 0 (replicate (n * 4) 0))"
      using pos gray unfolding n by (intro normalize_gray) simp_all
    have px: "gray_loop (pixels img) 0 0 (replicate (n * 4) 0) ! (4 * p + c)
        = (if p < length (pixels img) then (if c = 3 then 255 else pixels img ! p) else 0)"
      if "p < n" "c < 4" for p c
      using that by (rule gray_pixel)
    show ?thesis
      using gray px [of _ 0] px [of _ 1] px [of _ 2] px [of _ 3]
      by (simp add: norm gray_loop_length)
  qed
qed

lemma normalize_odd_image: "normalize_image odd_image = Inr [7, 7, 7, 255, 9, 9, 9, 255]"
  by (simp add: normalize_image_def odd_image_def createImageData_def gray_loop.simps rd_def
      numeral_eq_Suc)

section \<open>Facts about the packager and the session load\<close>

lemma rewrite_image_None_iff: "rewrite_image c src_attr = None \<longleftrightarrow> \<not> inline_image src_attr"
  by (auto simp: rewrite_image_def inline_image_def startsWith_def Let_def
      split: option.splits)

lemma rewrite_image_Some_inline:
  assumes "rewrite_image c src_attr = Some a"
  shows "inline_image src_attr"
proof (rule ccontr)
  assume "\<not> inline_image src_attr"
  then have "rewrite_image c src_attr = None" by (simp add: rewrite_image_None_iff)
  with assms show False by simp
qed

lemma rewrite_image_inline:
  assumes "inline_image src_attr"
  shows "\<exists>a. rewrite_image c src_attr = Some a"
proof (cases "rewrite_image c src_attr")
  case None
  with assms show ?thesis by (simp add: rewrite_image_None_iff)
next
  case (Some a)
  then show ?thesis by blast
qed

lemma rewrite_image_Some:
  assumes "rewrite_image c src_attr = Some (new_src, f, item)"
  shows "\<exists>name. new_src = ''images/'' @ name \<and> entry_name f = ''OEBPS/images/'' @ name
     \<and> (\<exists>b. entry_content f = Base64 b)"
  using assms
  by (auto simp: rewrite_image_def Let_def split: option.splits if_splits)

lemma process_images_snoc:
  "process_images (srcs @ [x]) = image_step (process_images srcs) x"
  by (simp add: process_images_def)

lemma process_images_counts:
  "imageCounter (process_images srcs) = length (filter inline_image srcs)
   \<and> length (written (process_images srcs)) = length (filter inline_image srcs)
   \<and> length (imageManifestItems (process_images srcs)) = length (filter inline_image srcs)
   \<and> length (srcs_after (process_images srcs)) = length srcs"
proof (induction srcs rule: rev_induct)
  case Nil
  then show ?case by (simp add: process_images_def)
next
  case (snoc x xs)
  show ?case
  proof (cases "rewrite_image (imageCounter (process_images xs)) x")
    case None
    then have "\<not> inline_image x" by (simp add: rewrite_image_None_iff)
    with None snoc show ?thesis
      by (simp add: process_images_snoc image_step_def)
  next
    case (Some a)
    then have "inline_image x" by (rule rewrite_image_Some_inline)
    with Some snoc show ?thesis
      by (cases a) (simp add: process_images_snoc image_step_def)
  qed
qed

lemma process_images_filter:
  "written (process_images srcs) = written (process_images (filter inline_image srcs))
   \<and> imageManifestItems (process_images srcs)
       = imageManifestItems (process_images (filter inline_image srcs))"
proof (induction srcs rule: rev_induct)
  case Nil
  then show ?case by simp
next
  case (snoc x xs)
  have c: "imageCounter (process_images (filter inline_image xs)) = imageCounter (process_images xs)"
    using process_images_counts [of xs] process_images_counts [of "filter inline_image xs"]
    by simp
  show ?case
  proof (cases "inline_image x")
    case False
    then have "rewrite_image (imageCounter (process_images xs)) x = None"
      by (simp add: rewrite_image_None_iff)
    with False snoc show ?thesis
      by (simp add: process_images_snoc image_step_def)
  next
    case True
    then obtain a where a: "rewrite_image (imageCounter (process_images xs)) x = Some a"
      using rewrite_image_inline by blast
    with True snoc c show ?thesis
      by (cases a) (simp add: process_images_snoc image_step_def)
  qed
qed


lemma written_are_image_files:
  "\<forall>e \<in> set (written (process_images srcs)).
      startsWith (entry_name e) ''OEBPS/images/'' \<and> entry_content e \<noteq> Folder"
proof (induction srcs rule: rev_induct)
  case Nil
  then show ?case by (simp add: process_images_def)
next
  case (snoc x xs)
  show ?case
  proof (cases "rewrite_image (imageCounter (process_images xs)) x")
    case None
    with snoc show ?thesis by (simp add: process_images_snoc image_step_def)
  next
    case (Some a)
    obtain new_src f item where a: "a = (new_src, f, item)" by (cases a)
    obtain name b where "entry_name f = ''OEBPS/images/'' @ name" "entry_content f = Base64 b"
      using rewrite_image_Some Some a by blast
    then have "startsWith (entry_name f) ''OEBPS/images/'' \<and> entry_content f \<noteq> Folder"
      by (simp add: startsWith_def)
    with Some a snoc show ?thesis
      by (simp add: process_images_snoc image_step_def)
  qed
qed

lemma generateEpub_entries:
  assumes "generateEpub Z inner doc title = Inr archive"
  shows "\<exists>xhtml. archive =
      [\<lparr>entry_name = ''mimetype'', entry_content = Text ''application/epub+zip'',
         entry_compression = Some ''STORE''\<rparr>]
      @ (if createFolders Z
         then [\<lparr>entry_name = ''META-INF/'', entry_content = Folder, entry_compression = None\<rparr>]
         else [])
      @ [\<lparr>entry_name = ''META-INF/container.xml'', entry_content = Text createContainerXml,
           entry_compression = None\<rparr>,
         \<lparr>entry_name = ''OEBPS/'', entry_content = Folder, entry_compression = None\<rparr>,
         \<lparr>entry_name = ''OEBPS/images/'', entry_content = Folder, entry_compression = None\<rparr>]
      @ written (process_images (img_srcs doc))
      @ [\<lparr>entry_name = ''OEBPS/style.css'', entry_content = Text createCss,
           entry_compression = None\<rparr>,
         \<lparr>entry_name = ''OEBPS/toc.ncx'',
           entry_content = Text (createTocNcx (bookTitle_of doc title)
             (join ''\<newline>'' (map (\<lambda>(index, link). navPoint index link)
                (zip [0..<length (toc_links doc)] (toc_links doc))))),
           entry_compression = None\<rparr>,
         \<lparr>entry_name = ''OEBPS/content.xhtml'', entry_content = Text xhtml,
           entry_compression = None\<rparr>,
         \<lparr>entry_name = ''OEBPS/content.opf'',
           entry_content = Text (createContentOpf (bookTitle_of doc title)
             (join ''\<newline>'' (imageManifestItems (process_images (img_srcs doc))))),
           entry_compression = None\<rparr>]"
  using assms
  by (cases "head_present doc") (auto simp: generateEpub_def Let_def split: if_splits)

lemma generateEpub_succeeds:
  assumes "\<forall>e \<in> set (written (process_images (img_srcs doc))). decodable_entry Z e"
  shows "\<exists>archive. generateEpub Z inner doc title = Inr archive"
  using assms
  by (auto simp: generateEpub_def Let_def decodable_entry_def list_all_iff)

lemma image_files_generateEpub:
  assumes "generateEpub Z inner doc title = Inr archive"
  shows "image_files archive = written (process_images (img_srcs doc))"
proof -
  have keep: "filter (\<lambda>e. startsWith (entry_name e) ''OEBPS/images/'' \<and> entry_content e \<noteq> Folder)
      (written (process_images (img_srcs doc))) = written (process_images (img_srcs doc))"
    using written_are_image_files by (simp add: filter_id_conv)
  obtain xhtml where "archive =
      [\<lparr>entry_name = ''mimetype'', entry_content = Text ''application/epub+zip'',
         entry_compression = Some ''STORE''\<rparr>]
      @ (if createFolders Z
         then [\<lparr>entry_name = ''META-INF/'', entry_content = Folder, entry_compression = None\<rparr>]
         else [])
      @ [\<lparr>entry_name = ''META-INF/container.xml'', entry_content = Text createContainerXml,
           entry_compression = None\<rparr>,
         \<lparr>entry_name = ''OEBPS/'', entry_content = Folder, entry_compression = None\<rparr>,
         \<lparr>entry_name = ''OEBPS/images/'', entry_content = Folder, entry_compression = None\<rparr>]
      @ written (process_images (img_srcs doc))
      @ [\<lparr>entry_name = ''OEBPS/style.css'', entry_content = Text createCss,
           entry_compression = None\<rparr>,
         \<lparr>entry_name = ''OEBPS/toc.ncx'',
           entry_content = Text (createTocNcx (bookTitle_of doc title)
             (join ''\<newline>'' (map (\<lambda>(index, link). navPoint index link)
                (zip [0..<length (toc_links doc)] (toc_links doc))))),
           entry_compression = None\<rparr>,
         \<lparr>entry_name = ''OEBPS/content.xhtml'', entry_content = Text xhtml,
           entry_compression = None\<rparr>,
         \<lparr>entry_name = ''OEBPS/content.opf'',
           entry_content = Text (createContentOpf (bookTitle_of doc title)
             (join ''\<newline>'' (imageManifestItems (process_images (img_srcs doc))))),
           entry_compression = None\<rparr>]"
    using generateEpub_entries [OF assms] by blast
  then show ?thesis
    using keep by (simp add: image_files_def startsWith_def)
qed

lemma show_nat_digit: "n < 10 \<Longrightarrow> show_nat n = [digit_char n]"
  by (simp add: show_nat.simps [of n])

lemma split_on_no_sep: "sep \<notin> set s \<Longrightarrow> split_on sep s = [s]"
  by (induction s) auto

lemma png_header:
  assumes "CHR '','' \<notin> set p"
  shows "header_of (''data:image/png;base64,'' @ p) = ''data:image/png;base64''"
    and "base64Data_of (''data:image/png;base64,'' @ p) = Some p"
  using assms by (simp_all add: header_of_def base64Data_of_def split_on_no_sep)

lemma mime_png: "mime_match ''data:image/png;base64'' = Some ''image/png''"
  by (simp add: line_break_def)

lemma extension_png: "extension_of ''image/png'' = ''png''"
  by (simp add: extension_of_def)

lemma rewrite_png:
  assumes "p \<noteq> []" "CHR '','' \<notin> set p"
  shows "rewrite_image c (png_src p) =
     Some (''images/image'' @ show_nat c @ ''.png'',
           \<lparr>entry_name = ''OEBPS/images/image'' @ show_nat c @ ''.png'',
            entry_content = Base64 p, entry_compression = None\<rparr>,
           manifest_item c (''image'' @ show_nat c @ ''.png'') ''image/png'')"
proof -
  note h = png_header [OF assms(2), simplified]
  show ?thesis
    using assms h
    by (simp add: rewrite_image_def png_src_def extension_png startsWith_def line_break_def Let_def)
qed

lemma inline_png:
  assumes "p \<noteq> []" "CHR '','' \<notin> set p"
  shows "inline_image (png_src p)"
  using rewrite_png [OF assms, of 0] by (rule rewrite_image_Some_inline)

lemma process_two_png:
  assumes "p1 \<noteq> []" "CHR '','' \<notin> set p1" "p2 \<noteq> []" "CHR '','' \<notin> set p2"
  shows "written (process_images [png_src p1, png_src p2]) =
      [\<lparr>entry_name = ''OEBPS/images/image0.png'', entry_content = Base64 p1,
         entry_compression = None\<rparr>,
       \<lparr>entry_name = ''OEBPS/images/image1.png'', entry_content = Base64 p2,
         entry_compression = None\<rparr>]"
    and "imageManifestItems (process_images [png_src p1, png_src p2]) =
      [manifest_item 0 ''image0.png'' ''image/png'', manifest_item 1 ''image1.png'' ''image/png'']"
  using assms
  by (simp_all add: process_images_def image_step_def rewrite_png show_nat_digit digit_char_def)

lemma navPoint_two: "navPoint (Suc (Suc 0)) l = navPoint 2 l"
  by (simp add: numeral_2_eq_2)

lemma two_images_inline:
  "filter inline_image (img_srcs two_images_doc) = [png_src ''AAAA'', png_src ''BBBB'']"
  by (simp add: two_images_doc_def inline_png)



lemma load_session_offers_iff:
  assumes "localStorage (sessionKey f) = Some saved" "saved \<noteq> []"
  shows "fst (load_session parse (Some f) localStorage) \<noteq> None \<longleftrightarrow>
     (\<exists>kvs. parse saved = Inr (JObject kvs) \<and> truthy (map_of kvs ''currentChunk'')
         \<and> truthy (map_of kvs ''chatHistory''))"
proof (cases "parse saved")
  case (Inl a)
  with assms show ?thesis by (simp add: load_session_def check_session_def)
next
  case (Inr v)
  with assms show ?thesis
    by (cases v) (auto simp: load_session_def check_session_def)
qed


section \<open>Claim C1: the resume offer\<close>

text \<open>
  C1 fails on the code. The conversion loop first writes, before it submits chunk 0, a
  session record with \<^verbatim>\<open>currentChunk\<close> 0 (for a document without images and a fresh
  chat: empty history, no images). The session-load effect tests
  \<^verbatim>\<open>parsed.currentChunk && parsed.chatHistory\<close> for truthiness, and 0 is falsy: the
  record parses, both fields are present, and yet it is not offered for resume
  (\<^verbatim>\<open>resumableSession\<close> becomes \<^verbatim>\<open>null\<close>) and is removed from the store.
\<close>

theorem C1_chunk0_session_discarded:
  "take 1 (trace (convert_loop E key 12 0 [] [] 0 [])) =
     [SetItem key \<lparr>currentChunk = 0, numPages = 12, chatHistory = [],
                   allImages = snd (snd (extract_chunk E 12 0 []))\<rparr>]
   \<and> parse_chunk0 chunk0_text = Inr chunk0_record
   \<and> get_property chunk0_record ''currentChunk'' = Inr (Some (JNumber 0))
   \<and> get_property chunk0_record ''chatHistory'' = Inr (Some (JArray []))
   \<and> fst (load_session parse_chunk0 (Some book_pdf)
        (store_with (sessionKey book_pdf) chunk0_text)) = None
   \<and> snd (load_session parse_chunk0 (Some book_pdf)
        (store_with (sessionKey book_pdf) chunk0_text)) (sessionKey book_pdf) = None"
proof -
  have ne: "chunk0_text \<noteq> []" by (simp add: chunk0_text_def)
  have lt: "0 < numChunks 12" by (simp add: numChunks_div)
  have "take 2 (trace (convert_loop E key 12 0 [] [] 0 [])) =
     [SetItem key \<lparr>currentChunk = 0, numPages = 12, chatHistory = [],
                   allImages = snd (snd (extract_chunk E 12 0 []))\<rparr>,
      SendChunk [] (fst (extract_chunk E 12 0 [])) (fst (snd (extract_chunk E 12 0 [])))
        (startPage 0) (endPage 12 0)]"
    by (rule loop_first_events [OF lt])
  then have "take 1 (take 2 (trace (convert_loop E key 12 0 [] [] 0 []))) =
     [SetItem key \<lparr>currentChunk = 0, numPages = 12, chatHistory = [],
                   allImages = snd (snd (extract_chunk E 12 0 []))\<rparr>]"
    by (simp only: take_Suc_Cons take_0 One_nat_def)
  then have w: "take 1 (trace (convert_loop E key 12 0 [] [] 0 [])) =
     [SetItem key \<lparr>currentChunk = 0, numPages = 12, chatHistory = [],
                   allImages = snd (snd (extract_chunk E 12 0 []))\<rparr>]"
    by (simp add: take_take)
  show ?thesis
    using ne w
    by (simp add: load_session_def check_session_def parse_chunk0_def store_with_def
        chunk0_record_def)
qed

section \<open>Claim C2: chunk slicing\<close>

text \<open>
  C2. For every page count \<open>P \<ge> 1\<close> with chunk size 5: the number of chunks is
  \<open>\<lceil>P / 5\<rceil>\<close> (the least \<open>n\<close> with \<open>P \<le> 5 n\<close>); chunk \<open>i\<close> covers the pages from
  \<open>5 i + 1\<close> to \<open>min (5 (i + 1)) P\<close>; every chunk range is non-empty; each chunk starts
  right after the previous one ends; the first starts at page 1 and the last ends at
  page \<open>P\<close>; and the page lists of all chunks, concatenated in order, are exactly
  \<open>1, \<dots>, P\<close>, so there is no gap and no overlap.
\<close>

theorem C2_chunks_partition_pages:
  assumes "1 \<le> P"
  shows "real (numChunks P) = real_of_int \<lceil>real P / 5\<rceil>
    \<and> P \<le> numChunks P * 5 \<and> (numChunks P - 1) * 5 < P
    \<and> (\<forall>i<numChunks P. chunk_pages P i = [i * 5 + 1 ..< Suc (min ((i + 1) * 5) P)]
          \<and> chunk_pages P i \<noteq> [])
    \<and> (\<forall>i. Suc i < numChunks P \<longrightarrow> startPage (Suc i) = Suc (endPage P i))
    \<and> startPage 0 = 1 \<and> endPage P (numChunks P - 1) = P
    \<and> concat (map (chunk_pages P) [0..<numChunks P]) = [1..<Suc P]"
proof -
  have count: "real (numChunks P) = real_of_int \<lceil>real P / 5\<rceil>"
    unfolding numChunks_def CHUNK_SIZE_def by simp
  have least: "P \<le> numChunks P * 5 \<and> (numChunks P - 1) * 5 < P"
    using assms unfolding numChunks_div by presburger
  have ranges: "\<forall>i<numChunks P. chunk_pages P i = [i * 5 + 1 ..< Suc (min ((i + 1) * 5) P)]
          \<and> chunk_pages P i \<noteq> []"
  proof (intro allI impI conjI)
    fix i assume "i < numChunks P"
    show "chunk_pages P i = [i * 5 + 1 ..< Suc (min ((i + 1) * 5) P)]"
      by (simp add: chunk_pages_def startPage_def endPage_def CHUNK_SIZE_def)
    show "chunk_pages P i \<noteq> []"
      using chunk_nonempty [OF \<open>i < numChunks P\<close>] by (simp add: chunk_pages_def)
  qed
  have contiguous: "\<forall>i. Suc i < numChunks P \<longrightarrow> startPage (Suc i) = Suc (endPage P i)"
    using chunk_next by blast
  have ends: "startPage 0 = 1 \<and> endPage P (numChunks P - 1) = P"
    using chunk_last [OF assms] by (simp add: startPage_def)
  have "P \<le> numChunks P * CHUNK_SIZE"
    unfolding numChunks_div CHUNK_SIZE_def by simp
  then have cover: "concat (map (chunk_pages P) [0..<numChunks P]) = [1..<Suc P]"
    using chunk_pages_concat_upto [of "numChunks P" P 0]
    by (simp add: startPage_def min_absorb2)
  from count least ranges contiguous ends cover show ?thesis by blast
qed

theorem C2_chunks_partition_pages_witness:
  "(1::nat) \<le> 12 \<and> numChunks 12 = 3
    \<and> chunk_pages 12 0 = [1, 2, 3, 4, 5]
    \<and> chunk_pages 12 1 = [6, 7, 8, 9, 10]
    \<and> chunk_pages 12 2 = [11, 12]
    \<and> concat (map (chunk_pages 12) [0..<numChunks 12]) = [1..<Suc 12]"
proof -
  have n: "numChunks 12 = 3"
    by (simp add: numChunks_div)
  have c0: "chunk_pages 12 0 = [1, 2, 3, 4, 5]"
    by (simp add: chunk_pages_def startPage_def endPage_def CHUNK_SIZE_def upt_rec)
  have c1: "chunk_pages 12 1 = [6, 7, 8, 9, 10]"
    by (simp add: chunk_pages_def startPage_def endPage_def CHUNK_SIZE_def upt_rec)
  have c2: "chunk_pages 12 2 = [11, 12]"
    by (simp add: chunk_pages_def startPage_def endPage_def CHUNK_SIZE_def upt_rec)
  have h: "(1::nat) \<le> 12"
    by simp
  from C2_chunks_partition_pages [OF h]
  have "concat (map (chunk_pages 12) [0..<numChunks 12]) = [1..<Suc 12]"
    by blast
  with h n c0 c1 c2 show ?thesis by blast
qed

section \<open>Claim C3: the two snapshots of a chunk\<close>

text \<open>
  C3. In every run of the conversion loop, from whatever chunk \<open>i\<close> it starts and
  whatever the service does:
  \<^item> the session writes and the chunk submissions follow the protocol: a snapshot with
    \<^verbatim>\<open>currentChunk\<close> \<open>= i\<close>, then the submission of chunk \<open>i\<close>, then either nothing more
    or a snapshot with \<^verbatim>\<open>currentChunk\<close> \<open>= i + 1\<close> and the protocol from chunk \<open>i + 1\<close>;
  \<^item> when chunk \<open>i\<close> is processed and its submission fails, the run ends with that error
    and has written exactly the snapshot \<open>i\<close> before the submission, and no snapshot
    after it;
  \<^item> when the submission succeeds, the run has written the snapshot \<open>i\<close> (with the chat
    history from before), made the submission, written the snapshot \<open>i + 1\<close> (with the
    history after the submission), slept, and gone on with chunk \<open>i + 1\<close>;
  \<^item> a run that completes has written, for every chunk from \<open>i\<close> to the last, exactly
    these two snapshots around its submission; a run that fails has done so for the
    chunks before the failing chunk \<open>k\<close>, and ends with the snapshot \<open>k\<close> and the
    submission of chunk \<open>k\<close>.
\<close>

theorem C3_snapshots_bracket_submission:
  "snapshot_discipline P i (marks (trace (convert_loop E key P i chat images n [])))
   \<and> (i < numChunks P \<longrightarrow>
        (case outcome (send_chunk E P i chat images n) of
           Inl err \<Rightarrow>
             ended (convert_loop E key P i chat images n []) = Inl err
             \<and> trace (convert_loop E key P i chat images n []) =
                 [SetItem key \<lparr>currentChunk = i, numPages = P, chatHistory = chat,
                                allImages = snd (snd (extract_chunk E P i images))\<rparr>,
                  SendChunk chat (fst (extract_chunk E P i images))
                    (fst (snd (extract_chunk E P i images))) (startPage i) (endPage P i)]
         | Inr resp \<Rightarrow>
             ended (convert_loop E key P i chat images n []) =
               ended (convert_loop E key P (Suc i) (history_after resp)
                        (snd (snd (extract_chunk E P i images)))
                        (n + attempts (send_chunk E P i chat images n)) [])
             \<and> trace (convert_loop E key P i chat images n []) =
                 [SetItem key \<lparr>currentChunk = i, numPages = P, chatHistory = chat,
                                allImages = snd (snd (extract_chunk E P i images))\<rparr>,
                  SendChunk chat (fst (extract_chunk E P i images))
                    (fst (snd (extract_chunk E P i images))) (startPage i) (endPage P i),
                  SetItem key \<lparr>currentChunk = i + 1, numPages = P,
                                chatHistory = history_after resp,
                                allImages = snd (snd (extract_chunk E P i images))\<rparr>,
                  Sleep THROTTLE_MS]
                 @ trace (convert_loop E key P (Suc i) (history_after resp)
                            (snd (snd (extract_chunk E P i images)))
                            (n + attempts (send_chunk E P i chat images n)) [])))
   \<and> ((\<exists>fin. ended (convert_loop E key P i chat images n []) = Inr fin) \<longrightarrow>
        marks (trace (convert_loop E key P i chat images n []))
          = concat (map (chunk_marks P) [i..<numChunks P]))
   \<and> (\<forall>err. ended (convert_loop E key P i chat images n []) = Inl err \<longrightarrow>
        (\<exists>k. i \<le> k \<and> k < numChunks P
           \<and> marks (trace (convert_loop E key P i chat images n [])) =
               concat (map (chunk_marks P) [i..<k])
               @ [Snap k, Sub (startPage k) (endPage P k)]))"
proof -
  have step: "i < numChunks P \<longrightarrow>
        (case outcome (send_chunk E P i chat images n) of
           Inl err \<Rightarrow>
             ended (convert_loop E key P i chat images n []) = Inl err
             \<and> trace (convert_loop E key P i chat images n []) =
                 [SetItem key \<lparr>currentChunk = i, numPages = P, chatHistory = chat,
                                allImages = snd (snd (extract_chunk E P i images))\<rparr>,
                  SendChunk chat (fst (extract_chunk E P i images))
                    (fst (snd (extract_chunk E P i images))) (startPage i) (endPage P i)]
         | Inr resp \<Rightarrow>
             ended (convert_loop E key P i chat images n []) =
               ended (convert_loop E key P (Suc i) (history_after resp)
                        (snd (snd (extract_chunk E P i images)))
                        (n + attempts (send_chunk E P i chat images n)) [])
             \<and> trace (convert_loop E key P i chat images n []) =
                 [SetItem key \<lparr>currentChunk = i, numPages = P, chatHistory = chat,
                                allImages = snd (snd (extract_chunk E P i images))\<rparr>,
                  SendChunk chat (fst (extract_chunk E P i images))
                    (fst (snd (extract_chunk E P i images))) (startPage i) (endPage P i),
                  SetItem key \<lparr>currentChunk = i + 1, numPages = P,
                                chatHistory = history_after resp,
                                allImages = snd (snd (extract_chunk E P i images))\<rparr>,
                  Sleep THROTTLE_MS]
                 @ trace (convert_loop E key P (Suc i) (history_after resp)
                            (snd (snd (extract_chunk E P i images)))
                            (n + attempts (send_chunk E P i chat images n)) []))"
  proof
    assume lt: "i < numChunks P"
    show "case outcome (send_chunk E P i chat images n) of
           Inl err \<Rightarrow>
             ended (convert_loop E key P i chat images n []) = Inl err
             \<and> trace (convert_loop E key P i chat images n []) =
                 [SetItem key \<lparr>currentChunk = i, numPages = P, chatHistory = chat,
                                allImages = snd (snd (extract_chunk E P i images))\<rparr>,
                  SendChunk chat (fst (extract_chunk E P i images))
                    (fst (snd (extract_chunk E P i images))) (startPage i) (endPage P i)]
         | Inr resp \<Rightarrow>
             ended (convert_loop E key P i chat images n []) =
               ended (convert_loop E key P (Suc i) (history_after resp)
                        (snd (snd (extract_chunk E P i images)))
                        (n + attempts (send_chunk E P i chat images n)) [])
             \<and> trace (convert_loop E key P i chat images n []) =
                 [SetItem key \<lparr>currentChunk = i, numPages = P, chatHistory = chat,
                                allImages = snd (snd (extract_chunk E P i images))\<rparr>,
                  SendChunk chat (fst (extract_chunk E P i images))
                    (fst (snd (extract_chunk E P i images))) (startPage i) (endPage P i),
                  SetItem key \<lparr>currentChunk = i + 1, numPages = P,
                                chatHistory = history_after resp,
                                allImages = snd (snd (extract_chunk E P i images))\<rparr>,
                  Sleep THROTTLE_MS]
                 @ trace (convert_loop E key P (Suc i) (history_after resp)
                            (snd (snd (extract_chunk E P i images)))
                            (n + attempts (send_chunk E P i chat images n)) [])"
    proof (cases "outcome (send_chunk E P i chat images n)")
      case (Inl err)
      then show ?thesis using lt by (simp add: loop_fail)
    next
      case (Inr resp)
      then show ?thesis
        using loop_ok_trace [OF lt Inr, of key] loop_ok_ended [OF lt Inr, of key] by simp
    qed
  qed
  from loop_discipline [of P i E key chat images n] step
    loop_complete_marks [of E key P i chat images n]
    loop_failed_marks [of E key P i chat images n]
  show ?thesis by blast
qed

theorem C3_snapshots_bracket_submission_witness:
  "(\<exists>fin. ended (convert_loop quiet_env ''k'' 7 0 [] [] 0 []) = Inr fin)
   \<and> marks (trace (convert_loop quiet_env ''k'' 7 0 [] [] 0 []))
       = [Snap 0, Sub 1 5, Snap 1, Snap 1, Sub 6 7, Snap 2]
   \<and> 0 < numChunks 7
   \<and> outcome (send_chunk rejecting_env 7 0 [] [] 0) = Inl bad_request
   \<and> ended (convert_loop rejecting_env ''k'' 7 0 [] [] 0 []) = Inl bad_request
   \<and> marks (trace (convert_loop rejecting_env ''k'' 7 0 [] [] 0 [])) = [Snap 0, Sub 1 5]"
proof -
  have all: "\<forall>n h m. \<exists>resp. sendMessage quiet_env n h m = Inr resp"
    by (simp add: quiet_env_def)
  have e: "\<exists>fin. ended (convert_loop quiet_env ''k'' 7 0 [] [] 0 []) = Inr fin"
    by (rule loop_all_success [OF all])
  have m: "concat (map (chunk_marks 7) [0..<numChunks 7]) =
      [Snap 0, Sub 1 5, Snap 1, Snap 1, Sub 6 7, Snap 2]"
    by (simp add: numChunks_div chunk_marks_def startPage_def endPage_def CHUNK_SIZE_def upt_rec)
  from C3_snapshots_bracket_submission [of 7 0 quiet_env "''k''" "[]" "[]" 0] e m
  have good: "marks (trace (convert_loop quiet_env ''k'' 7 0 [] [] 0 []))
       = [Snap 0, Sub 1 5, Snap 1, Snap 1, Sub 6 7, Snap 2]"
    by simp
  have lt: "0 < numChunks 7"
    by (simp add: numChunks_div)
  have rej: "outcome (send_chunk rejecting_env 7 0 [] [] 0) = Inl bad_request"
    by (rule send_chunk_rejected) (simp_all add: rejecting_env_def bad_request_class)
  from C3_snapshots_bracket_submission [of 7 0 rejecting_env "''k''" "[]" "[]" 0] lt rej
  have bad: "ended (convert_loop rejecting_env ''k'' 7 0 [] [] 0 []) = Inl bad_request
      \<and> marks (trace (convert_loop rejecting_env ''k'' 7 0 [] [] 0 [])) = [Snap 0, Sub 1 5]"
    by (simp add: marks_def startPage_def endPage_def CHUNK_SIZE_def)
  from e good lt rej bad show ?thesis by blast
qed

section \<open>Claim C4: exhausting the retries\<close>

text \<open>
  C4. When every attempt of \<^verbatim>\<open>sendMessageWithRetry\<close> fails with an error classified as
  retriable, exactly 7 attempts are made (so at most 7); 6 delays are slept, the first of
  3000 ms and each later one equal to twice the previous plus the jitter drawn for it, so
  each delay is at least twice the previous and the sequence is non-decreasing; and the
  error thrown to the caller is the error of the 7th attempt.
\<close>

theorem C4_retry_exhaustion:
  assumes "\<forall>k<7. retriable_failure (send k)"
  shows "attempts (sendMessageWithRetry send rnd) = 7
    \<and> (\<exists>err. send 6 = Inl err \<and> outcome (sendMessageWithRetry send rnd) = Inl err)
    \<and> length (delays (sendMessageWithRetry send rnd)) = 6
    \<and> delays (sendMessageWithRetry send rnd) ! 0 = 3000
    \<and> (\<forall>k<5. delays (sendMessageWithRetry send rnd) ! Suc k
                 = delays (sendMessageWithRetry send rnd) ! k * 2 + rnd k
             \<and> 2 * delays (sendMessageWithRetry send rnd) ! k
                 \<le> delays (sendMessageWithRetry send rnd) ! Suc k)
    \<and> sorted (delays (sendMessageWithRetry send rnd))"
proof -
  from assms have "retriable_failure (send 6)" by simp
  then obtain err where err: "send 6 = Inl err"
    by (auto simp: retriable_failure_def split: sum.splits)
  have "sendMessageWithRetry send rnd =
      retry_loop send rnd 6 (backoff rnd 6) (map (backoff rnd) [0..<6])"
    using assms by (intro retry_run0) simp_all
  also have "\<dots> = \<lparr>outcome = Inl err, attempts = 7, delays = map (backoff rnd) [0..<6]\<rparr>"
    using err by (simp add: retry_stop_other)
  finally have r: "sendMessageWithRetry send rnd =
      \<lparr>outcome = Inl err, attempts = 7, delays = map (backoff rnd) [0..<6]\<rparr>" .
  have steps: "\<forall>k<5. map (backoff rnd) [0..<6] ! Suc k = map (backoff rnd) [0..<6] ! k * 2 + rnd k
      \<and> 2 * map (backoff rnd) [0..<6] ! k \<le> map (backoff rnd) [0..<6] ! Suc k"
  proof (intro allI impI)
    fix k :: nat assume "k < 5"
    then have "map (backoff rnd) [0..<6] ! Suc k = backoff rnd (Suc k)"
      and "map (backoff rnd) [0..<6] ! k = backoff rnd k"
      by (simp_all del: upt_Suc backoff.simps)
    then show "map (backoff rnd) [0..<6] ! Suc k = map (backoff rnd) [0..<6] ! k * 2 + rnd k
      \<and> 2 * map (backoff rnd) [0..<6] ! k \<le> map (backoff rnd) [0..<6] ! Suc k"
      by simp
  qed
  have first: "map (backoff rnd) [0..<6] ! 0 = 3000"
    by (simp add: INITIAL_DELAY_MS_def upt_rec)
  show ?thesis
    unfolding r using err steps first sorted_backoff [of rnd 6] by simp
qed

theorem C4_retry_exhaustion_witness:
  "retriable_failure (always_503 0)
   \<and> attempts (sendMessageWithRetry always_503 (\<lambda>k. 100 * k)) = 7
   \<and> outcome (sendMessageWithRetry always_503 (\<lambda>k. 100 * k)) = always_503 6
   \<and> delays (sendMessageWithRetry always_503 (\<lambda>k. 100 * k)) ! 0 = 3000"
proof -
  have h: "\<forall>k<7. retriable_failure (always_503 k)"
    by (simp add: retriable_503)
  from C4_retry_exhaustion [OF h, of "\<lambda>k. 100 * k"] show ?thesis
    by (auto simp: retriable_503)
qed

section \<open>Claim C5: a quota error is never retried\<close>

text \<open>
  C5 fails on the code. The loop classifies
  \<^verbatim>\<open>typeof err === 'object' ? JSON.stringify(err) : String(err)\<close>, and for an
  \<^verbatim>\<open>Error\<close> object that text leaves out the message. An error whose message says
  \<^verbatim>\<open>Quota exceeded (daily limit)\<close> and whose stringified form is
  \<^verbatim>\<open>{"name":"ApiError","status":429}\<close> is therefore not recognised as a quota error;
  the status 429 makes it retriable, and when every attempt fails with it the loop makes
  all 7 attempts and sleeps 6 delays before it gives the error to the caller, where the
  claim asks for exactly one attempt and no delay.
\<close>

theorem C5_quota_message_retried:
  "instanceofError api_quota_error
   \<and> includes_str (toLowerCase (message api_quota_error)) ''quota exceeded''
   \<and> includes_str (toLowerCase (message api_quota_error)) ''daily limit''
   \<and> \<not> isQuotaError api_quota_error
   \<and> attempts (sendMessageWithRetry (\<lambda>k. Inl api_quota_error :: thrown + unit) (\<lambda>k. 0)) = 7
   \<and> length (delays (sendMessageWithRetry (\<lambda>k. Inl api_quota_error :: thrown + unit) (\<lambda>k. 0))) = 6
   \<and> outcome (sendMessageWithRetry (\<lambda>k. Inl api_quota_error :: thrown + unit) (\<lambda>k. 0))
       = Inl api_quota_error"
proof -
  have r: "retriable_failure (Inl api_quota_error :: thrown + unit)"
    by (simp add: retriable_failure_def api_quota_error_class)
  have "sendMessageWithRetry (\<lambda>k. Inl api_quota_error :: thrown + unit) (\<lambda>k. 0) =
      retry_loop (\<lambda>k. Inl api_quota_error) (\<lambda>k. 0) 6 (backoff (\<lambda>k. 0) 6)
        (map (backoff (\<lambda>k. 0)) [0..<6])"
    by (rule retry_run0) (simp_all add: r)
  also have "\<dots> = \<lparr>outcome = Inl api_quota_error, attempts = 7,
      delays = map (backoff (\<lambda>k. 0)) [0..<6]\<rparr>"
    by (simp add: retry_stop_other)
  finally have run: "sendMessageWithRetry (\<lambda>k. Inl api_quota_error :: thrown + unit) (\<lambda>k. 0) =
      \<lparr>outcome = Inl api_quota_error, attempts = 7, delays = map (backoff (\<lambda>k. 0)) [0..<6]\<rparr>" .
  have i: "instanceofError api_quota_error"
    by (simp add: api_quota_error_def)
  show ?thesis
    unfolding run using i api_quota_error_message api_quota_error_class(1) by simp
qed

section \<open>Claim C6: a malformed finalize response\<close>

text \<open>
  C6, as amended. When the response that \<^verbatim>\<open>finishEpubConversionChat\<close> receives (at
  attempt \<open>k\<close>, the earlier attempts having been retried) has no text, or its cleaned text
  does not parse as JSON, or parses to a value that is not an object with a truthy
  \<^verbatim>\<open>htmlContent\<close> member, the call throws an \<^verbatim>\<open>Error\<close> whose message starts with
  \<^verbatim>\<open>Failed to convert PDF to HTML. \<close>, and attempt \<open>k\<close> was the last call of the service:
  nothing is sent after the response has been found malformed.
\<close>

theorem C6_finalize_malformed:
  assumes "k < 7" "\<forall>j<k. retriable_failure (send (final_message instructions) j)"
    and "send (final_message instructions) k = Inr resp"
    and "text_of resp = None \<or>
         (\<exists>t. text_of resp = Some t \<and> \<not> has_truthy_htmlContent (parse (cleaned_text t)))"
  shows "(\<exists>m. outcome (finishEpubConversionChat send rnd parse instructions)
               = Inl (new_Error (''Failed to convert PDF to HTML. '' @ m)))
    \<and> attempts (finishEpubConversionChat send rnd parse instructions) = Suc k"
proof -
  have r: "sendMessageWithRetry (send (final_message instructions)) rnd =
      \<lparr>outcome = Inr resp, attempts = Suc k, delays = map (backoff rnd) [0..<k]\<rparr>"
    using assms(1-3) by (intro retry_success_at) simp_all
  from assms(4) have "\<exists>m. read_htmlContent parse (text_of resp) = Inl (new_Error m)"
  proof
    assume "text_of resp = None"
    then show ?thesis by (auto simp: read_htmlContent_def)
  next
    assume "\<exists>t. text_of resp = Some t \<and> \<not> has_truthy_htmlContent (parse (cleaned_text t))"
    then show ?thesis using read_htmlContent_absent by auto
  qed
  then obtain m where m: "read_htmlContent parse (text_of resp) = Inl (new_Error m)" ..
  have "finishEpubConversionChat send rnd parse instructions =
      \<lparr>outcome = Inl (rethrow_failed (new_Error m)), attempts = Suc k,
       delays = map (backoff rnd) [0..<k]\<rparr>"
    by (simp add: finishEpubConversionChat_def r m)
  then show ?thesis
    by (simp add: rethrow_failed_def new_Error_def)
qed

theorem C6_finalize_malformed_witness:
  "outcome (finishEpubConversionChat (answer_with empty_response) (\<lambda>k. 0) parse_empty_response [])
     = Inl (new_Error ''Failed to convert PDF to HTML. API response did not contain 'htmlContent'.'')
   \<and> attempts (finishEpubConversionChat (answer_with empty_response) (\<lambda>k. 0)
        parse_empty_response []) = 1"
proof -
  have a: "\<forall>j<0. retriable_failure (answer_with empty_response (final_message []) j)"
    by simp
  have b: "answer_with empty_response (final_message []) 0
      = Inr \<lparr>text_of = Some empty_response, history_after = ()\<rparr>"
    by (simp add: answer_with_def)
  have c: "text_of \<lparr>text_of = Some empty_response, history_after = ()\<rparr> = None \<or>
      (\<exists>t. text_of \<lparr>text_of = Some empty_response, history_after = ()\<rparr> = Some t
         \<and> \<not> has_truthy_htmlContent (parse_empty_response (cleaned_text t)))"
    by (simp add: cleaned_empty_response parse_empty_response_def has_truthy_htmlContent_def)
  have k: "(0::nat) < 7" by simp
  have r: "sendMessageWithRetry (answer_with empty_response (final_message [])) (\<lambda>k. 0) =
      \<lparr>outcome = Inr \<lparr>text_of = Some empty_response, history_after = ()\<rparr>, attempts = Suc 0,
       delays = map (backoff (\<lambda>k. 0)) [0..<0]\<rparr>"
    by (intro retry_success_at) (simp_all add: answer_with_def)
  have o: "outcome (finishEpubConversionChat (answer_with empty_response) (\<lambda>k. 0)
      parse_empty_response [])
     = Inl (new_Error ''Failed to convert PDF to HTML. API response did not contain 'htmlContent'.'')"
    by (simp add: finishEpubConversionChat_def r read_htmlContent_def cleaned_empty_response
        parse_empty_response_def rethrow_failed_def new_Error_def)
  from C6_finalize_malformed [where send = "answer_with empty_response" and instructions = "[]"
      and k = 0 and parse = parse_empty_response and rnd = "\<lambda>k. 0"
      and resp = "\<lparr>text_of = Some empty_response, history_after = ()\<rparr>", OF k a b c] o
  show ?thesis
    by simp
qed

text \<open>
  C6 as stated fails: the code tests that \<^verbatim>\<open>htmlContent\<close> is truthy, not that it is a
  string. A response \<^verbatim>\<open>{"htmlContent":42}\<close> lacks the string field and is returned
  as the number 42 instead of being rejected.
\<close>

theorem C6_non_string_counterexample:
  "\<not> has_htmlContent_string (parse_number_response (cleaned_text number_response))
   \<and> outcome (finishEpubConversionChat (answer_with number_response) (\<lambda>k. 0)
        parse_number_response []) = Inr (JNumber 42)"
proof -
  have r: "sendMessageWithRetry (answer_with number_response (final_message [])) (\<lambda>k. 0) =
      \<lparr>outcome = Inr \<lparr>text_of = Some number_response, history_after = ()\<rparr>, attempts = Suc 0,
       delays = map (backoff (\<lambda>k. 0)) [0..<0]\<rparr>"
    by (intro retry_success_at) (simp_all add: answer_with_def)
  have p: "parse_number_response (cleaned_text number_response)
      = Inr (JObject [(''htmlContent'', JNumber 42)])"
    by (simp add: cleaned_number_response parse_number_response_def)
  have "read_htmlContent parse_number_response (Some number_response) = Inr (JNumber 42)"
    using p by (intro read_htmlContent_present [where kvs = "[(''htmlContent'', JNumber 42)]"]) simp_all
  then show ?thesis
    by (simp add: finishEpubConversionChat_def r p has_htmlContent_string_def)
qed

section \<open>Claim C7: two inline images and three links\<close>

text \<open>
  C7, as amended. For a document whose inline images are exactly two
  \<^verbatim>\<open>data:image/png;base64\<close> images (with payloads the library can decode) and whose
  table of contents has three links, the packager produces an archive in which: the
  first entry is \<^verbatim>\<open>mimetype\<close>, with compression \<^verbatim>\<open>STORE\<close> and the content
  \<^verbatim>\<open>application/epub+zip\<close>; the files under the images folder are exactly two,
  \<^verbatim>\<open>image0.png\<close> and \<^verbatim>\<open>image1.png\<close>, holding the two payloads in document order; the
  package document lists, after its three fixed items, exactly the two items for these
  files; and the navigation document has exactly three \<^verbatim>\<open>navPoint\<close> entries, in the
  order of the links, with \<^verbatim>\<open>playOrder\<close> 1, 2 and 3.
\<close>

theorem C7_two_images_three_links:
  assumes "filter inline_image (img_srcs doc) = [png_src p1, png_src p2]"
    and "p1 \<noteq> []" "CHR '','' \<notin> set p1" "p2 \<noteq> []" "CHR '','' \<notin> set p2"
    and "can_decode Z p1" "can_decode Z p2"
    and "toc_links doc = [l1, l2, l3]"
  shows \<open>\<exists>archive xhtml. generateEpub Z inner doc title = Inr archive
    \<and> archive =
      [\<lparr>entry_name = ''mimetype'', entry_content = Text ''application/epub+zip'',
         entry_compression = Some ''STORE''\<rparr>]
      @ (if createFolders Z
         then [\<lparr>entry_name = ''META-INF/'', entry_content = Folder, entry_compression = None\<rparr>]
         else [])
      @ [\<lparr>entry_name = ''META-INF/container.xml'', entry_content = Text createContainerXml,
           entry_compression = None\<rparr>,
         \<lparr>entry_name = ''OEBPS/'', entry_content = Folder, entry_compression = None\<rparr>,
         \<lparr>entry_name = ''OEBPS/images/'', entry_content = Folder, entry_compression = None\<rparr>,
         \<lparr>entry_name = ''OEBPS/images/image0.png'', entry_content = Base64 p1,
           entry_compression = None\<rparr>,
         \<lparr>entry_name = ''OEBPS/images/image1.png'', entry_content = Base64 p2,
           entry_compression = None\<rparr>,
         \<lparr>entry_name = ''OEBPS/style.css'', entry_content = Text createCss,
           entry_compression = None\<rparr>,
         \<lparr>entry_name = ''OEBPS/toc.ncx'',
           entry_content = Text (createTocNcx (bookTitle_of doc title)
             (navPoint 0 l1 @ ''\<newline>'' @ navPoint 1 l2 @ ''\<newline>'' @ navPoint 2 l3)),
           entry_compression = None\<rparr>,
         \<lparr>entry_name = ''OEBPS/content.xhtml'', entry_content = Text xhtml,
           entry_compression = None\<rparr>,
         \<lparr>entry_name = ''OEBPS/content.opf'',
           entry_content = Text (createContentOpf (bookTitle_of doc title)
             (manifest_item 0 ''image0.png'' ''image/png'' @ ''\<newline>'' @
              manifest_item 1 ''image1.png'' ''image/png'')),
           entry_compression = None\<rparr>]
    \<and> archive ! 0 = \<lparr>entry_name = ''mimetype'', entry_content = Text ''application/epub+zip'',
                      entry_compression = Some ''STORE''\<rparr>
    \<and> image_files archive =
      [\<lparr>entry_name = ''OEBPS/images/image0.png'', entry_content = Base64 p1,
         entry_compression = None\<rparr>,
       \<lparr>entry_name = ''OEBPS/images/image1.png'', entry_content = Base64 p2,
         entry_compression = None\<rparr>]
    \<and> manifest_item 0 ''image0.png'' ''image/png''
        = ''<item id="img0" href="images/image0.png" media-type="image/png"/>''
    \<and> manifest_item 1 ''image1.png'' ''image/png''
        = ''<item id="img1" href="images/image1.png" media-type="image/png"/>''
    \<and> prefix ''<navPoint id="navpoint-1" playOrder="1">'' (navPoint 0 l1)
    \<and> prefix ''<navPoint id="navpoint-2" playOrder="2">'' (navPoint 1 l2)
    \<and> prefix ''<navPoint id="navpoint-3" playOrder="3">'' (navPoint 2 l3)\<close>
proof -
  have w: "written (process_images (img_srcs doc)) =
      [\<lparr>entry_name = ''OEBPS/images/image0.png'', entry_content = Base64 p1,
         entry_compression = None\<rparr>,
       \<lparr>entry_name = ''OEBPS/images/image1.png'', entry_content = Base64 p2,
         entry_compression = None\<rparr>]"
    using process_images_filter [of "img_srcs doc"] process_two_png(1) [OF assms(2-5)]
    by (simp add: assms(1))
  have m: "imageManifestItems (process_images (img_srcs doc)) =
      [manifest_item 0 ''image0.png'' ''image/png'', manifest_item 1 ''image1.png'' ''image/png'']"
    using process_images_filter [of "img_srcs doc"] process_two_png(2) [OF assms(2-5)]
    by (simp add: assms(1))
  have "\<forall>e \<in> set (written (process_images (img_srcs doc))). decodable_entry Z e"
    using assms(6,7) by (simp add: w decodable_entry_def)
  then obtain archive where ok: "generateEpub Z inner doc title = Inr archive"
    using generateEpub_succeeds by blast
  have nav: "join ''\<newline>'' (map (\<lambda>(index, link). navPoint index link)
      (zip [0..<length (toc_links doc)] (toc_links doc)))
      = navPoint 0 l1 @ ''\<newline>'' @ navPoint 1 l2 @ ''\<newline>'' @ navPoint 2 l3"
    using assms(8) by (simp add: join_def navPoint_two)
  have man: "join ''\<newline>'' (imageManifestItems (process_images (img_srcs doc)))
      = manifest_item 0 ''image0.png'' ''image/png'' @ ''\<newline>'' @
        manifest_item 1 ''image1.png'' ''image/png''"
    by (simp add: m join_def)
  obtain xhtml where archive: \<open>archive =
      [\<lparr>entry_name = ''mimetype'', entry_content = Text ''application/epub+zip'',
         entry_compression = Some ''STORE''\<rparr>]
      @ (if createFolders Z
         then [\<lparr>entry_name = ''META-INF/'', entry_content = Folder, entry_compression = None\<rparr>]
         else [])
      @ [\<lparr>entry_name = ''META-INF/container.xml'', entry_content = Text createContainerXml,
           entry_compression = None\<rparr>,
         \<lparr>entry_name = ''OEBPS/'', entry_content = Folder, entry_compression = None\<rparr>,
         \<lparr>entry_name = ''OEBPS/images/'', entry_content = Folder, entry_compression = None\<rparr>,
         \<lparr>entry_name = ''OEBPS/images/image0.png'', entry_content = Base64 p1,
           entry_compression = None\<rparr>,
         \<lparr>entry_name = ''OEBPS/images/image1.png'', entry_content = Base64 p2,
           entry_compression = None\<rparr>,
         \<lparr>entry_name = ''OEBPS/style.css'', entry_content = Text createCss,
           entry_compression = None\<rparr>,
         \<lparr>entry_name = ''OEBPS/toc.ncx'',
           entry_content = Text (createTocNcx (bookTitle_of doc title)
             (navPoint 0 l1 @ ''\<newline>'' @ navPoint 1 l2 @ ''\<newline>'' @ navPoint 2 l3)),
           entry_compression = None\<rparr>,
         \<lparr>entry_name = ''OEBPS/content.xhtml'', entry_content = Text xhtml,
           entry_compression = None\<rparr>,
         \<lparr>entry_name = ''OEBPS/content.opf'',
           entry_content = Text (createContentOpf (bookTitle_of doc title)
             (manifest_item 0 ''image0.png'' ''image/png'' @ ''\<newline>'' @
              manifest_item 1 ''image1.png'' ''image/png'')),
           entry_compression = None\<rparr>]\<close>
    using generateEpub_entries [OF ok] unfolding nav man w by auto
  have first: "archive ! 0 = \<lparr>entry_name = ''mimetype'',
      entry_content = Text ''application/epub+zip'', entry_compression = Some ''STORE''\<rparr>"
    unfolding archive by simp
  have files: "image_files archive =
      [\<lparr>entry_name = ''OEBPS/images/image0.png'', entry_content = Base64 p1,
         entry_compression = None\<rparr>,
       \<lparr>entry_name = ''OEBPS/images/image1.png'', entry_content = Base64 p2,
         entry_compression = None\<rparr>]"
    using image_files_generateEpub [OF ok] by (simp only: w)
  have items: \<open>manifest_item 0 ''image0.png'' ''image/png''
        = ''<item id="img0" href="images/image0.png" media-type="image/png"/>''
    \<and> manifest_item 1 ''image1.png'' ''image/png''
        = ''<item id="img1" href="images/image1.png" media-type="image/png"/>''\<close>
    by (simp add: manifest_item_def show_nat_digit digit_char_def)
  have order: \<open>prefix ''<navPoint id="navpoint-1" playOrder="1">'' (navPoint 0 l1)
    \<and> prefix ''<navPoint id="navpoint-2" playOrder="2">'' (navPoint 1 l2)
    \<and> prefix ''<navPoint id="navpoint-3" playOrder="3">'' (navPoint 2 l3)\<close>
    by (cases l1; cases l2; cases l3) (simp add: navPoint_def show_nat_digit digit_char_def)
  from ok archive first files items order show ?thesis by blast
qed

theorem C7_two_images_three_links_witness:
  \<open>filter inline_image (img_srcs two_images_doc) = [png_src ''AAAA'', png_src ''BBBB'']
   \<and> toc_links two_images_doc = [(''One'', Some ''#one''), (''Two'', Some ''#two''), (''Three'', None)]
   \<and> can_decode plain_zip ''AAAA'' \<and> can_decode plain_zip ''BBBB''
   \<and> (\<exists>archive. generateEpub plain_zip (\<lambda>d. []) two_images_doc ''book'' = Inr archive
        \<and> archive ! 0 = \<lparr>entry_name = ''mimetype'', entry_content = Text ''application/epub+zip'',
                          entry_compression = Some ''STORE''\<rparr>
        \<and> image_files archive =
            [\<lparr>entry_name = ''OEBPS/images/image0.png'', entry_content = Base64 ''AAAA'',
               entry_compression = None\<rparr>,
             \<lparr>entry_name = ''OEBPS/images/image1.png'', entry_content = Base64 ''BBBB'',
               entry_compression = None\<rparr>])
   \<and> prefix ''<navPoint id="navpoint-3" playOrder="3">'' (navPoint 2 (''Three'', None))\<close>
proof -
  have t: "toc_links two_images_doc =
      [(''One'', Some ''#one''), (''Two'', Some ''#two''), (''Three'', None)]"
    by (simp add: two_images_doc_def)
  have a: "''AAAA'' \<noteq> []" "CHR '','' \<notin> set ''AAAA''" "''BBBB'' \<noteq> []" "CHR '','' \<notin> set ''BBBB''"
    by simp_all
  have d: "can_decode plain_zip ''AAAA''" "can_decode plain_zip ''BBBB''"
    by (simp_all add: plain_zip_def)
  from C7_two_images_three_links [OF two_images_inline a d t, of "\<lambda>d. []" "''book''"]
    two_images_inline t d
  show ?thesis by blast
qed

text \<open>
  C7 as stated fails: the packager writes one file per inline image, so a document with
  exactly two inline PNG images and three links gives an archive with two image files,
  not three.
\<close>

theorem C7_three_image_files_counterexample:
  "list_all inline_image (img_srcs two_images_doc)
   \<and> length (img_srcs two_images_doc) = 2
   \<and> length (toc_links two_images_doc) = 3
   \<and> (\<exists>archive. generateEpub plain_zip (\<lambda>d. []) two_images_doc ''book'' = Inr archive
        \<and> length (image_files archive) = 2
        \<and> length (image_files archive) \<noteq> 3)"
proof -
  have w: "length (written (process_images (img_srcs two_images_doc))) = 2"
    using process_images_counts [of "img_srcs two_images_doc"]
    by (simp add: two_images_inline)
  have "\<forall>e \<in> set (written (process_images (img_srcs two_images_doc))). decodable_entry plain_zip e"
    by (simp add: decodable_entry_def plain_zip_def split: content.splits)
  then obtain archive where ok: "generateEpub plain_zip (\<lambda>d. []) two_images_doc ''book'' = Inr archive"
    using generateEpub_succeeds by blast
  have "length (image_files archive) = 2"
    using w by (simp only: image_files_generateEpub [OF ok])
  moreover have "list_all inline_image (img_srcs two_images_doc)"
    by (simp add: two_images_doc_def inline_png)
  moreover have "length (img_srcs two_images_doc) = 2 \<and> length (toc_links two_images_doc) = 3"
    by (simp add: two_images_doc_def)
  ultimately show ?thesis
    using ok by auto
qed

section \<open>Claim C8: image normalization\<close>

text \<open>
  C8. For every image with positive width and height and every pixel buffer, of
  whatever length, the normalization returns a buffer of \<open>4 \<times> width \<times> height\<close> bytes and
  throws nothing: when the length is \<open>3 \<times> width \<times> height\<close> each pixel is the three input
  bytes followed by 255; when it is \<open>4 \<times> width \<times> height\<close> the buffer is the input; in every
  other case (the grey fallback) pixel \<open>p\<close> is the input byte \<open>p\<close> three times followed by
  255 for as long as there are input bytes, input bytes beyond the last pixel are
  dropped, and pixels beyond the last input byte stay zero. When a side is zero,
  \<^verbatim>\<open>createImageData\<close> throws; the error is caught, the image is skipped and the
  extraction state is unchanged, so the conversion is not aborted.
\<close>

theorem C8_normalize_rgba:
  "(0 < width img \<and> 0 < height img \<longrightarrow>
      (\<exists>buf. normalize_image img = Inr buf \<and> length buf = width img * height img * 4
         \<and> (length (pixels img) = width img * height img * 3 \<longrightarrow>
              (\<forall>p<width img * height img.
                 buf ! (4 * p) = pixels img ! (3 * p) \<and> buf ! (4 * p + 1) = pixels img ! (3 * p + 1)
                 \<and> buf ! (4 * p + 2) = pixels img ! (3 * p + 2) \<and> buf ! (4 * p + 3) = 255))
         \<and> (length (pixels img) = width img * height img * 4 \<longrightarrow> buf = pixels img)
         \<and> (length (pixels img) \<noteq> width img * height img * 3
              \<and> length (pixels img) \<noteq> width img * height img * 4 \<longrightarrow>
              (\<forall>p<width img * height img.
                 if p < length (pixels img)
                 then buf ! (4 * p) = pixels img ! p \<and> buf ! (4 * p + 1) = pixels img ! p
                      \<and> buf ! (4 * p + 2) = pixels img ! p \<and> buf ! (4 * p + 3) = 255
                 else buf ! (4 * p) = 0 \<and> buf ! (4 * p + 1) = 0
                      \<and> buf ! (4 * p + 2) = 0 \<and> buf ! (4 * p + 3) = 0))))
   \<and> (width img = 0 \<or> height img = 0 \<longrightarrow>
        extract_image E (PaintImageXObject (Some img)) st = st)"
proof (intro conjI impI)
  assume "0 < width img \<and> 0 < height img"
  then show "(\<exists>buf. normalize_image img = Inr buf \<and> length buf = width img * height img * 4
         \<and> (length (pixels img) = width img * height img * 3 \<longrightarrow>
              (\<forall>p<width img * height img.
                 buf ! (4 * p) = pixels img ! (3 * p) \<and> buf ! (4 * p + 1) = pixels img ! (3 * p + 1)
                 \<and> buf ! (4 * p + 2) = pixels img ! (3 * p + 2) \<and> buf ! (4 * p + 3) = 255))
         \<and> (length (pixels img) = width img * height img * 4 \<longrightarrow> buf = pixels img)
         \<and> (length (pixels img) \<noteq> width img * height img * 3
              \<and> length (pixels img) \<noteq> width img * height img * 4 \<longrightarrow>
              (\<forall>p<width img * height img.
                 if p < length (pixels img)
                 then buf ! (4 * p) = pixels img ! p \<and> buf ! (4 * p + 1) = pixels img ! p
                      \<and> buf ! (4 * p + 2) = pixels img ! p \<and> buf ! (4 * p + 3) = 255
                 else buf ! (4 * p) = 0 \<and> buf ! (4 * p + 1) = 0
                      \<and> buf ! (4 * p + 2) = 0 \<and> buf ! (4 * p + 3) = 0)))"
    by (intro normalize_paths) simp_all
next
  assume "width img = 0 \<or> height img = 0"
  then have "normalize_image img = Inl (new_Error ''IndexSizeError'')"
    by (auto simp: normalize_image_def createImageData_def)
  then show "extract_image E (PaintImageXObject (Some img)) st = st"
    by (cases st) (simp add: extract_image_def)
qed

theorem C8_normalize_rgba_witness:
  "0 < width odd_image \<and> 0 < height odd_image
   \<and> length (pixels odd_image) = 3
   \<and> normalize_image odd_image = Inr [7, 7, 7, 255, 9, 9, 9, 255]
   \<and> length [7, 7, 7, 255, 9, 9, 9, 255 :: byte] = width odd_image * height odd_image * 4"
proof -
  have pos: "0 < width odd_image \<and> 0 < height odd_image"
    by (simp add: odd_image_def)
  from C8_normalize_rgba [of odd_image] pos
  have "\<exists>buf. normalize_image odd_image = Inr buf \<and> length buf = width odd_image * height odd_image * 4"
    by blast
  with pos normalize_odd_image show ?thesis
    by (simp add: odd_image_def)
qed

section \<open>Claim C9: a resumed conversion\<close>

text \<open>
  C9. When \<^verbatim>\<open>handleConvert\<close> resumes a session with \<^verbatim>\<open>currentChunk\<close> \<open>= n\<close>:
  the page ranges submitted are, in order, those of the chunks \<open>n, n + 1, \<dots>\<close> (all of
  them up to the last when the run completes); no chunk below \<open>n\<close> is submitted; the text
  and images of every submission are those extracted from the pages of its own chunk
  \<open>j \<ge> n\<close>; and the run starts from the session: its first snapshot and first
  submission carry the session's chat history, and the image sequence continues the
  session's images.
\<close>

theorem C9_resume_skips_acknowledged_chunks:
  fixes E :: "'c env" and f :: selected_file and session :: "'c session_data"
    and forceNew isRetriable confirmed :: bool
  assumes "\<not> forceNew" "isRetriable \<or> confirmed"
  defines "r \<equiv> handleConvert E f (Some session) forceNew isRetriable confirmed"
    and "n \<equiv> currentChunk session"
    and "P \<equiv> pdf_numPages E"
  shows "prefix (submissions (trace r)) (map (chunk_range P) [n..<numChunks P])
    \<and> (\<forall>i<n. chunk_range P i \<notin> set (submissions (trace r)))
    \<and> (\<forall>h body ims s e. SendChunk h body ims s e \<in> set (trace r) \<longrightarrow>
          (\<exists>j before. n \<le> j \<and> j < numChunks P \<and> s = startPage j \<and> e = endPage P j
             \<and> body = fst (extract_chunk E P j before)
             \<and> ims = fst (snd (extract_chunk E P j before))))
    \<and> ((\<exists>a. ended r = Inr a) \<longrightarrow> submissions (trace r) = map (chunk_range P) [n..<numChunks P])
    \<and> (n < numChunks P \<longrightarrow>
          take 2 (trace r) =
            [SetItem (sessionKey f)
               \<lparr>currentChunk = n, numPages = P, chatHistory = chatHistory session,
                allImages = snd (snd (extract_chunk E P n (allImages session)))\<rparr>,
             SendChunk (chatHistory session) (fst (extract_chunk E P n (allImages session)))
               (fst (snd (extract_chunk E P n (allImages session)))) (startPage n) (endPage P n)]
          \<and> prefix (allImages session) (snd (snd (extract_chunk E P n (allImages session)))))"
proof -
  define L where "L = convert_loop E (sessionKey f) P n (chatHistory session) (allImages session) 0 []"
  obtain extra where tr: "trace r = trace L @ extra" and ex: "submissions extra = []"
    and nosend: "\<forall>h body ims s e. SendChunk h body ims s e \<notin> set extra"
    and complete_loop: "\<forall>a. ended r = Inr a \<longrightarrow> (\<exists>fin. ended L = Inr fin)"
    using handleConvert_resumed [OF assms(1,2), of E f session]
    unfolding r_def n_def P_def L_def by blast
  have subs: "submissions (trace r) = submissions (trace L)"
    by (simp add: tr submissions_append ex)
  have p: "prefix (submissions (trace r)) (map (chunk_range P) [n..<numChunks P])"
    unfolding subs L_def by (rule loop_submissions_prefix)
  have never: "\<forall>i<n. chunk_range P i \<notin> set (submissions (trace r))"
  proof (intro allI impI notI)
    fix i assume "i < n" and "chunk_range P i \<in> set (submissions (trace r))"
    with p have "chunk_range P i \<in> set (map (chunk_range P) [n..<numChunks P])"
      using set_mono_prefix by blast
    then obtain j where "n \<le> j" "chunk_range P i = chunk_range P j" by auto
    then have "i = j" by (simp add: chunk_range_def startPage_def CHUNK_SIZE_def)
    with \<open>i < n\<close> \<open>n \<le> j\<close> show False by simp
  qed
  have texts: "\<forall>h body ims s e. SendChunk h body ims s e \<in> set (trace r) \<longrightarrow>
          (\<exists>j before. n \<le> j \<and> j < numChunks P \<and> s = startPage j \<and> e = endPage P j
             \<and> body = fst (extract_chunk E P j before)
             \<and> ims = fst (snd (extract_chunk E P j before)))"
  proof (intro allI impI)
    fix h body ims s e
    assume "SendChunk h body ims s e \<in> set (trace r)"
    with tr nosend have "SendChunk h body ims s e \<in> set (trace L)" by auto
    then show "\<exists>j before. n \<le> j \<and> j < numChunks P \<and> s = startPage j \<and> e = endPage P j
             \<and> body = fst (extract_chunk E P j before)
             \<and> ims = fst (snd (extract_chunk E P j before))"
      unfolding L_def by (rule loop_sent_texts)
  qed
  have complete: "(\<exists>a. ended r = Inr a) \<longrightarrow>
      submissions (trace r) = map (chunk_range P) [n..<numChunks P]"
  proof
    assume "\<exists>a. ended r = Inr a"
    with complete_loop obtain fin where "ended L = Inr fin" by blast
    then show "submissions (trace r) = map (chunk_range P) [n..<numChunks P]"
      unfolding subs L_def by (rule loop_complete_submissions)
  qed
  have seeded: "n < numChunks P \<longrightarrow>
          take 2 (trace r) =
            [SetItem (sessionKey f)
               \<lparr>currentChunk = n, numPages = P, chatHistory = chatHistory session,
                allImages = snd (snd (extract_chunk E P n (allImages session)))\<rparr>,
             SendChunk (chatHistory session) (fst (extract_chunk E P n (allImages session)))
               (fst (snd (extract_chunk E P n (allImages session)))) (startPage n) (endPage P n)]
          \<and> prefix (allImages session) (snd (snd (extract_chunk E P n (allImages session))))"
  proof
    assume lt: "n < numChunks P"
    have t2: "take 2 (trace L) =
            [SetItem (sessionKey f)
               \<lparr>currentChunk = n, numPages = P, chatHistory = chatHistory session,
                allImages = snd (snd (extract_chunk E P n (allImages session)))\<rparr>,
             SendChunk (chatHistory session) (fst (extract_chunk E P n (allImages session)))
               (fst (snd (extract_chunk E P n (allImages session)))) (startPage n) (endPage P n)]"
      unfolding L_def by (rule loop_first_events [OF lt])
    then have "2 \<le> length (trace L)"
      by (metis length_take min.cobounded1 length_Cons list.size(3) One_nat_def Suc_1
          add.right_neutral add_Suc_right min_def)
    then have "take 2 (trace r) = take 2 (trace L)"
      by (simp add: tr)
    with t2 extract_chunk_extends
    show "take 2 (trace r) =
            [SetItem (sessionKey f)
               \<lparr>currentChunk = n, numPages = P, chatHistory = chatHistory session,
                allImages = snd (snd (extract_chunk E P n (allImages session)))\<rparr>,
             SendChunk (chatHistory session) (fst (extract_chunk E P n (allImages session)))
               (fst (snd (extract_chunk E P n (allImages session)))) (startPage n) (endPage P n)]
          \<and> prefix (allImages session) (snd (snd (extract_chunk E P n (allImages session))))"
      by simp
  qed
  from p never texts complete seeded show ?thesis by blast
qed

theorem C9_resume_skips_acknowledged_chunks_witness:
  "(\<exists>a. ended (handleConvert quiet_env \<lparr>file_name = ''a.pdf'', file_size = 9\<rparr>
          (Some resumed_session) False True False) = Inr a)
   \<and> currentChunk resumed_session = 1 \<and> pdf_numPages quiet_env = 7
   \<and> submissions (trace (handleConvert quiet_env \<lparr>file_name = ''a.pdf'', file_size = 9\<rparr>
          (Some resumed_session) False True False)) = [(6, 7)]"
proof -
  have a: "\<not> False" and b: "True \<or> False" by simp_all
  have e: "\<exists>a. ended (handleConvert quiet_env \<lparr>file_name = ''a.pdf'', file_size = 9\<rparr>
          (Some resumed_session) False True False) = Inr a"
    by (rule handleConvert_completes [OF answering_quiet])
  have n: "currentChunk resumed_session = 1" and P: "pdf_numPages quiet_env = 7"
    by (simp_all add: resumed_session_def quiet_env_def)
  have m: "map (chunk_range 7) [1..<numChunks 7] = [(6, 7)]"
    by (simp add: numChunks_div chunk_range_def startPage_def endPage_def CHUNK_SIZE_def upt_rec)
  from C9_resume_skips_acknowledged_chunks [OF a b, of quiet_env
      "\<lparr>file_name = ''a.pdf'', file_size = 9\<rparr>" resumed_session] e
  have "submissions (trace (handleConvert quiet_env \<lparr>file_name = ''a.pdf'', file_size = 9\<rparr>
          (Some resumed_session) False True False)) = [(6, 7)]"
    unfolding n P m by blast
  with e n P show ?thesis by blast
qed

section \<open>Claim C10: images that are not inline data images\<close>



end
